theory Spec2Isabelle
  imports Complex_Main "HOL-Library.Sublist"
begin

section \<open>Props, decoded assets and the closure of the composer\<close>

text \<open>
  The component \<^verbatim>\<open>VideoComposer\<close> (src/components/VideoComposer.tsx) receives its
  props from the page, keeps the decoded bitmaps in React state and memoises the total
  duration. JavaScript numbers are modelled as reals: every comparison, \<^verbatim>\<open>Math.min\<close>
  and \<^verbatim>\<open>Math.max\<close> below is exact on finite doubles; NaN and the infinities are outside
  the model, and the rounding of \<^verbatim>\<open>*\<close> and \<^verbatim>\<open>/\<close> is idealised.
\<close>

datatype ratio = R16_9 | R9_16 | R1_1

datatype style = Cinematic | Modern | Minimal

record asset_file =
  file_name :: string
  file_type :: string

record bitmap =
  bmp_width :: real
  bmp_height :: real
  bmp_pixels :: nat

text \<open>
  \<^verbatim>\<open>fitCover\<close>, \<^verbatim>\<open>kenBurnsPath\<close> and \<^verbatim>\<open>lerp\<close> are imported from
  \<^verbatim>\<open>@/lib/kenburns\<close>, which is not among the source files; they are taken as
  parameters of the composer (fields \<open>fitCover\<close>, \<open>kenBurnsPath\<close>, \<open>lerp\<close>).
\<close>

record fit =
  fit_x :: real
  fit_y :: real
  fit_w :: real
  fit_h :: real

record kb_path =
  startScale :: real
  endScale :: real
  startX :: real
  endX :: real
  startY :: real
  endY :: real

record composer =
  assets :: "asset_file list"
  audioFile :: "asset_file option"
  productName :: string
  tagline :: string
  features :: "string list"
  cta :: string
  price :: string
  ratio :: ratio
  style :: style
  bitmaps :: "bitmap list"
  totalMs :: real
  fitCover :: "real \<Rightarrow> real \<Rightarrow> real \<Rightarrow> real \<Rightarrow> fit"
  kenBurnsPath :: "nat \<Rightarrow> kb_path"
  lerp :: "real \<Rightarrow> real \<Rightarrow> real \<Rightarrow> real"

text \<open>Layout target size (lines 24-28).\<close>

definition layout :: "ratio \<Rightarrow> real \<times> real" where
  "layout r =
     (if r = R16_9 then (1280, 720)
      else if r = R9_16 then (1080, 1920)
      else (1080, 1080))"

text \<open>Scene timings in milliseconds (lines 31-34).\<close>

definition introMs :: real where "introMs = 1500"
definition perImageMs :: real where "perImageMs = 3200"
definition priceMs :: real where "priceMs = 1800"
definition outroMs :: real where "outroMs = 800"

text \<open>
  The callback of the memo at lines 36-40, as a function of \<^verbatim>\<open>bitmaps.length\<close> and
  \<^verbatim>\<open>assets.length\<close>. React re-runs it when \<^verbatim>\<open>bitmaps.length\<close> changes; the value
  the closures see is the field \<open>totalMs\<close> of the composer.
\<close>

definition totalDurationMs :: "nat \<Rightarrow> nat \<Rightarrow> real" where
  "totalDurationMs bitmaps_length assets_length =
     (let n = max bitmaps_length assets_length in
      if n = 0 then introMs
      else introMs + real n * perImageMs + priceMs + outroMs)"

text \<open>
  The effect at lines 43-58: files whose type does not start with \<^verbatim>\<open>image/\<close> are
  skipped, a decode that throws is swallowed. \<open>decode\<close> is the host's
  \<^verbatim>\<open>createImageBitmap\<close>, \<open>None\<close> when it throws.
\<close>

definition loadBitmaps :: "(asset_file \<Rightarrow> bitmap option) \<Rightarrow> asset_file list \<Rightarrow> bitmap list" where
  "loadBitmaps decode fs =
     List.map_filter (\<lambda>f. if prefix ''image/'' (file_type f) then decode f else None) fs"

section \<open>The scene list\<close>

datatype kind = Intro | Image | Price | Outro

record scene =
  kind :: kind
  idx :: "nat option"
  startMs :: real
  endMs :: real

text \<open>
  Lines 72-82 of \<^verbatim>\<open>drawFrame\<close>. The fields \<^verbatim>\<open>start\<close> and \<^verbatim>\<open>end\<close> of the source are
  \<open>startMs\<close> and \<open>endMs\<close> here. The \<^verbatim>\<open>for\<close> loop over \<^verbatim>\<open>i < bitmaps.length\<close> is a
  fold over \<open>[0..<n]\<close> that carries the list and the cursor.
\<close>

definition imageLoop :: "nat \<Rightarrow> scene list \<times> real \<Rightarrow> scene list \<times> real" where
  "imageLoop n =
     fold (\<lambda>i (sc, cursor).
            (sc @ [\<lparr>kind = Image, idx = Some i, startMs = cursor, endMs = cursor + perImageMs\<rparr>],
             cursor + perImageMs))
          [0..<n]"

definition scenes :: "nat \<Rightarrow> scene list" where
  "scenes bitmaps_length =
     (let cursor0 = 0;
          sc0 = [\<lparr>kind = Intro, idx = None, startMs = cursor0, endMs = cursor0 + introMs\<rparr>];
          cursor1 = cursor0 + introMs;
          (sc1, cursor2) = imageLoop bitmaps_length (sc0, cursor1);
          sc2 = sc1 @ [\<lparr>kind = Price, idx = None, startMs = cursor2, endMs = cursor2 + priceMs\<rparr>];
          cursor3 = cursor2 + priceMs;
          sc3 = sc2 @ [\<lparr>kind = Outro, idx = None, startMs = cursor3, endMs = cursor3 + outroMs\<rparr>]
      in sc3)"

text \<open>The predicate of \<^verbatim>\<open>scenes.find\<close> at line 85.\<close>

definition inScene :: "real \<Rightarrow> scene \<Rightarrow> bool" where
  "inScene time s = (time \<ge> startMs s \<and> time < endMs s)"

section \<open>The drawing context\<close>

text \<open>
  A \<^verbatim>\<open>CanvasRenderingContext2D\<close> is a record of the drawing state the code touches
  and of the surface. The surface is the sequence of paints applied since it was last
  cleared, each with the state that decides its pixels: the fill style (for fills), the
  global alpha and the filter in force when it was issued.
\<close>

datatype fill_style =
    CssColor string
  | Rgba nat nat nat real
  | LinearGradient real real real real "(real \<times> string) list"
  | RadialGradient real real real real real real "(real \<times> string) list"

datatype font = DefaultFont | UiSans nat int

datatype text_align = AlignStart | AlignLeft | AlignCenter

datatype text_baseline = Alphabetic

datatype path_seg =
    MoveTo real real
  | ArcTo real real real real real
  | ClosePath

datatype shape =
    Rect real real real real
  | Cleared real real real real
  | Picture bitmap real real real real real real real real
  | Text string real real font text_align text_baseline
  | Path "path_seg list"

record paint =
  shape :: shape
  paint_fill :: "fill_style option"
  paint_alpha :: real
  paint_filter :: string

record ctx =
  canvas_width :: real
  canvas_height :: real
  fillStyle :: fill_style
  globalAlpha :: real
  ctx_filter :: string
  ctx_font :: font
  textAlign :: text_align
  textBaseline :: text_baseline
  path :: "path_seg list"
  surface :: "paint list"

text \<open>A context as \<^verbatim>\<open>getContext("2d")\<close> first returns it, on a canvas of the given size.\<close>

definition freshCtx :: "real \<Rightarrow> real \<Rightarrow> ctx" where
  "freshCtx w h =
     \<lparr>canvas_width = w, canvas_height = h, fillStyle = CssColor ''#000000'',
      globalAlpha = 1, ctx_filter = ''none'', ctx_font = DefaultFont,
      textAlign = AlignStart, textBaseline = Alphabetic, path = [], surface = []\<rparr>"

text \<open>
  The host operations. Clearing the whole canvas empties the surface; a fill of a
  rectangle with no width or no height paints nothing; an assignment to
  \<^verbatim>\<open>globalAlpha\<close> outside \<open>[0, 1]\<close> is ignored.
\<close>

definition put :: "shape \<Rightarrow> bool \<Rightarrow> ctx \<Rightarrow> ctx" where
  "put sh filled c =
     c\<lparr>surface := surface c @
         [\<lparr>shape = sh, paint_fill = (if filled then Some (fillStyle c) else None),
           paint_alpha = globalAlpha c, paint_filter = ctx_filter c\<rparr>]\<rparr>"

definition clearRect :: "real \<Rightarrow> real \<Rightarrow> real \<Rightarrow> real \<Rightarrow> ctx \<Rightarrow> ctx" where
  "clearRect x y w h c =
     (if x \<le> 0 \<and> y \<le> 0 \<and> canvas_width c \<le> x + w \<and> canvas_height c \<le> y + h
      then c\<lparr>surface := []\<rparr>
      else c\<lparr>surface := surface c @
             [\<lparr>shape = Cleared x y w h, paint_fill = None, paint_alpha = 1, paint_filter = ''none''\<rparr>]\<rparr>)"

definition fillRect :: "real \<Rightarrow> real \<Rightarrow> real \<Rightarrow> real \<Rightarrow> ctx \<Rightarrow> ctx" where
  "fillRect x y w h c = (if w = 0 \<or> h = 0 then c else put (Rect x y w h) True c)"

definition drawImage ::
  "bitmap \<Rightarrow> real \<Rightarrow> real \<Rightarrow> real \<Rightarrow> real \<Rightarrow> real \<Rightarrow> real \<Rightarrow> real \<Rightarrow> real \<Rightarrow> ctx \<Rightarrow> ctx" where
  "drawImage bmp sx sy sw sh dx dy dw dh c = put (Picture bmp sx sy sw sh dx dy dw dh) False c"

definition fillText :: "string \<Rightarrow> real \<Rightarrow> real \<Rightarrow> ctx \<Rightarrow> ctx" where
  "fillText s x y c = put (Text s x y (ctx_font c) (textAlign c) (textBaseline c)) True c"

definition fill :: "ctx \<Rightarrow> ctx" where
  "fill c = put (Path (path c)) True c"

definition setAlpha :: "real \<Rightarrow> ctx \<Rightarrow> ctx" where
  "setAlpha a c = (if 0 \<le> a \<and> a \<le> 1 then c\<lparr>globalAlpha := a\<rparr> else c)"

definition setFill :: "fill_style \<Rightarrow> ctx \<Rightarrow> ctx" where
  "setFill f c = c\<lparr>fillStyle := f\<rparr>"

definition setFilter :: "string \<Rightarrow> ctx \<Rightarrow> ctx" where
  "setFilter f c = c\<lparr>ctx_filter := f\<rparr>"

definition setFont :: "font \<Rightarrow> ctx \<Rightarrow> ctx" where
  "setFont f c = c\<lparr>ctx_font := f\<rparr>"

definition setTextAlign :: "text_align \<Rightarrow> ctx \<Rightarrow> ctx" where
  "setTextAlign a c = c\<lparr>textAlign := a\<rparr>"

definition setTextBaseline :: "text_baseline \<Rightarrow> ctx \<Rightarrow> ctx" where
  "setTextBaseline b c = c\<lparr>textBaseline := b\<rparr>"

definition beginPath :: "ctx \<Rightarrow> ctx" where
  "beginPath c = c\<lparr>path := []\<rparr>"

definition addSeg :: "path_seg \<Rightarrow> ctx \<Rightarrow> ctx" where
  "addSeg s c = c\<lparr>path := path c @ [s]\<rparr>"

text \<open>\<^verbatim>\<open>xs[i]\<close> of JavaScript: \<^verbatim>\<open>undefined\<close> out of range.\<close>

definition nth_opt :: "'a list \<Rightarrow> nat \<Rightarrow> 'a option" where
  "nth_opt xs i = (if i < length xs then Some (xs ! i) else None)"

text \<open>\<^verbatim>\<open>Math.round\<close> rounds half up, as \<open>round\<close> of HOL does.\<close>

definition math_round :: "real \<Rightarrow> int" where
  "math_round x = \<lfloor>x + 1 / 2\<rfloor>"

section \<open>The per-scene draws\<close>

text \<open>
  Lines 116-241. Each function takes the context last and returns it updated; the
  statements keep the order of the source. The parameter \<^verbatim>\<open>style\<close> of the three scene
  draws is never read by the source, and is kept.
\<close>

definition drawIntro ::
  "composer \<Rightarrow> bitmap option \<Rightarrow> string \<Rightarrow> string \<Rightarrow> real \<Rightarrow> style \<Rightarrow> ctx \<Rightarrow> ctx" where
  "drawIntro cm bmp title subtitle prog sty c0 =
     (let W = canvas_width c0; H = canvas_height c0;
          c = (case bmp of
                 None \<Rightarrow> c0
               | Some b \<Rightarrow>
                   (let ft = fitCover cm (bmp_width b) (bmp_height b) W H;
                        zoom = 1.04 + prog * 0.04;
                        cx = fit_x ft + fit_w ft * 0.5;
                        cy = fit_y ft + fit_h ft * 0.5;
                        w = fit_w ft * zoom;
                        h = fit_h ft * zoom;
                        c = setAlpha 0.9 c0;
                        c = drawImage b 0 0 (bmp_width b) (bmp_height b)
                              (cx - w / 2) (cy - h / 2) w h c;
                        c = setAlpha 1 c;
                        c = setFill (CssColor ''rgba(0,0,0,0.35)'') c
                    in fillRect 0 0 W H c));
          fade = min 1 (prog * 1.5);
          c = setFill (Rgba 255 255 255 fade) c;
          c = setTextAlign AlignLeft c;
          c = setTextBaseline Alphabetic c;
          c = setFont (UiSans 700 (math_round (W * 0.055))) c;
          c = fillText title (W * 0.08) (H * 0.52) c;
          c = setAlpha 0.9 c;
          c = setFont (UiSans 400 (math_round (W * 0.025))) c;
          c = fillText subtitle (W * 0.08) (H * 0.58) c
      in setAlpha 1 c)"

text \<open>
  \<^verbatim>\<open>if (caption)\<close> at line 171: \<^verbatim>\<open>undefined\<close> and the empty string are falsy.
\<close>

definition drawImageScene ::
  "composer \<Rightarrow> bitmap option \<Rightarrow> string option \<Rightarrow> nat \<Rightarrow> real \<Rightarrow> style \<Rightarrow> ctx \<Rightarrow> ctx" where
  "drawImageScene cm bmp caption index prog sty c0 =
     (let W = canvas_width c0; H = canvas_height c0;
          c = (case bmp of
                 None \<Rightarrow> c0
               | Some b \<Rightarrow>
                   (let ft = fitCover cm (bmp_width b) (bmp_height b) W H;
                        kb = kenBurnsPath cm index;
                        scl = lerp cm (startScale kb) (endScale kb) prog;
                        panX = lerp cm (startX kb) (endX kb) prog;
                        panY = lerp cm (startY kb) (endY kb) prog;
                        viewW = fit_w ft * scl;
                        viewH = fit_h ft * scl;
                        x = fit_x ft + (fit_w ft - viewW) * panX;
                        y = fit_y ft + (fit_h ft - viewH) * panY;
                        c = setAlpha 1 c0;
                        c = drawImage b 0 0 (bmp_width b) (bmp_height b) x y viewW viewH c;
                        grad = LinearGradient 0 (H * 0.7) 0 H
                                 [(0, ''rgba(0,0,0,0)''), (1, ''rgba(0,0,0,0.55)'')];
                        c = setFill grad c
                    in fillRect 0 (H * 0.7) W (H * 0.3) c))
      in case caption of
           None \<Rightarrow> c
         | Some s \<Rightarrow>
             if s = [] then c
             else
               (let c = setTextAlign AlignLeft c;
                    c = setTextBaseline Alphabetic c;
                    c = setFill (CssColor ''white'') c;
                    c = setFont (UiSans 600 (math_round (W * 0.032))) c
                in fillText s (W * 0.06) (H * 0.92) c))"

definition roundRect :: "real \<Rightarrow> real \<Rightarrow> real \<Rightarrow> real \<Rightarrow> real \<Rightarrow> ctx \<Rightarrow> ctx" where
  "roundRect x y w h r c0 =
     (let rr = min (min r (w / 2)) (h / 2);
          c = beginPath c0;
          c = addSeg (MoveTo (x + rr) y) c;
          c = addSeg (ArcTo (x + w) y (x + w) (y + h) rr) c;
          c = addSeg (ArcTo (x + w) (y + h) x (y + h) rr) c;
          c = addSeg (ArcTo x (y + h) x y rr) c;
          c = addSeg (ArcTo x y (x + w) y rr) c
      in addSeg ClosePath c)"

definition drawPrice :: "string \<Rightarrow> string \<Rightarrow> real \<Rightarrow> style \<Rightarrow> ctx \<Rightarrow> ctx" where
  "drawPrice price_text cta_text prog sty c0 =
     (let W = canvas_width c0; H = canvas_height c0;
          g = LinearGradient 0 0 W H [(0, ''#1f1c2c''), (1, ''#928DAB'')];
          c = setFill g c0;
          c = fillRect 0 0 W H c;
          fade = min 1 (prog * 1.5);
          c = setAlpha (0.9 * fade) c;
          c = setFill (CssColor ''white'') c;
          c = setTextAlign AlignCenter c;
          c = setTextBaseline Alphabetic c;
          c = setFont (UiSans 800 (math_round (W * 0.095))) c;
          c = fillText price_text (W / 2) (H * 0.48) c;
          c = setAlpha (1 * fade) c;
          pillW = W * 0.36;
          pillH = of_int (math_round (W * 0.06));
          x = W / 2 - pillW / 2;
          y = H * 0.58 - pillH / 2;
          r = pillH / 2;
          c = setFill (CssColor ''#6366f1'') c;
          c = roundRect x y pillW pillH r c;
          c = fill c;
          c = setFill (CssColor ''white'') c;
          c = setFont (UiSans 600 (math_round (W * 0.03))) c
      in fillText cta_text (W / 2) (H * 0.59 + of_int (math_round (W * 0.012))) c)"

definition drawVignette :: "ctx \<Rightarrow> ctx" where
  "drawVignette c0 =
     (let W = canvas_width c0; H = canvas_height c0;
          grad = RadialGradient (W / 2) (H / 2) (min W H * 0.3) (W / 2) (H / 2) (max W H * 0.7)
                   [(0, ''rgba(0,0,0,0)''), (1, ''rgba(0,0,0,0.5)'')];
          c = setFill grad c0
      in fillRect 0 0 W H c)"

definition drawLetterbox :: "ctx \<Rightarrow> ctx" where
  "drawLetterbox c0 =
     (let W = canvas_width c0; H = canvas_height c0;
          targetH = min H (of_int (math_round (W / 2.35)));
          pad = max 0 ((H - targetH) / 2);
          c = setFill (CssColor ''rgba(0,0,0,0.75)'') c0;
          c = fillRect 0 0 W pad c
      in fillRect 0 (H - pad) W pad c)"

section \<open>The frame renderer\<close>

datatype error = TypeError | ReferenceError | NotSupportedError

text \<open>
  The dispatch on the scene kind, lines 92-104 of \<^verbatim>\<open>drawFrame\<close>. An image scene
  always carries its index; \<^verbatim>\<open>bitmaps[undefined]\<close> and \<^verbatim>\<open>features[undefined]\<close> are
  \<^verbatim>\<open>undefined\<close>, so without one nothing would be drawn.
\<close>

definition drawScene :: "composer \<Rightarrow> scene \<Rightarrow> real \<Rightarrow> ctx \<Rightarrow> ctx" where
  "drawScene cm sc prog c0 =
     (if kind sc = Intro then
        drawIntro cm (nth_opt (bitmaps cm) 0) (productName cm) (tagline cm) prog (style cm) c0
      else if kind sc = Image then
        (case idx sc of
           Some i \<Rightarrow>
             drawImageScene cm (nth_opt (bitmaps cm) i) (nth_opt (features cm) i) i prog (style cm) c0
         | None \<Rightarrow> c0)
      else if kind sc = Price then
        drawPrice (price cm) (cta cm) prog (style cm) c0
      else
        (let W = canvas_width c0; H = canvas_height c0;
             c = setFill (CssColor ''black'') c0;
             c = setAlpha prog c;
             c = fillRect 0 0 W H c
         in setAlpha 1 c))"

text \<open>
  \<^verbatim>\<open>drawFrame\<close>, lines 64-114, in the order of the source: the background (lines
  65-70), the scene list (lines 72-82, \<open>scenes\<close> above), the time of the frame (line 84),
  the lookup (line 85) and the painting of the scene found (lines 86-113). When
  \<^verbatim>\<open>scenes.find\<close> returns \<^verbatim>\<open>undefined\<close>, reading \<^verbatim>\<open>scene.start\<close> at line 86 throws a
  TypeError; the context has been cleared and filled black by then, and is returned with
  the error.
\<close>

definition colorGrade :: string where
  "colorGrade = ''contrast(1.12) saturate(0.95) brightness(1.05)''"

definition background :: "ctx \<Rightarrow> ctx" where
  "background c0 =
     (let W = canvas_width c0; H = canvas_height c0;
          c = clearRect 0 0 W H c0;
          c = setFill (CssColor ''black'') c
      in fillRect 0 0 W H c)"

definition frameTime :: "composer \<Rightarrow> real \<Rightarrow> real" where
  "frameTime cm tMs = min tMs (totalMs cm - 1)"

definition paintScene :: "composer \<Rightarrow> scene \<Rightarrow> real \<Rightarrow> ctx \<Rightarrow> ctx" where
  "paintScene cm sc time c0 =
     (let local = time - startMs sc;
          prog = local / (endMs sc - startMs sc);
          c = setFilter (if style cm = Minimal then ''none'' else colorGrade) c0;
          c = drawScene cm sc prog c;
          c = (if style cm \<noteq> Minimal then drawVignette c else c);
          c = (if style cm = Cinematic then drawLetterbox c else c)
      in setFilter ''none'' c)"

definition drawFrame :: "composer \<Rightarrow> ctx \<Rightarrow> real \<Rightarrow> (error \<times> ctx) + ctx" where
  "drawFrame cm c0 tMs =
     (let c = background c0;
          time = frameTime cm tMs
      in case List.find (inScene time) (scenes (length (bitmaps cm))) of
           None \<Rightarrow> Inl (TypeError, c)
         | Some sc \<Rightarrow> Inr (paintScene cm sc time c))"

section \<open>The capture driver\<close>

text \<open>
  The host, as far as \<^verbatim>\<open>selectMimeType\<close> and \<^verbatim>\<open>startRecording\<close> ask it:
  whether \<^verbatim>\<open>window.MediaRecorder\<close> exists, what \<^verbatim>\<open>MediaRecorder.isTypeSupported\<close>
  answers, and whether the constructor \<^verbatim>\<open>new MediaRecorder(stream, {mimeType})\<close>
  accepts a type (it throws NotSupportedError otherwise). All three are parameters.
\<close>

record host =
  hasMediaRecorder :: bool
  isTypeSupported :: "string \<Rightarrow> bool"
  recorderAccepts :: "string \<Rightarrow> bool"

text \<open>Lines 333-343. The \<^verbatim>\<open>for\<close> loop returns from the function at the first hit.\<close>

definition cand :: "string list" where
  "cand = [''video/webm;codecs=vp9,opus'', ''video/webm;codecs=vp8,opus'', ''video/webm'']"

fun selectLoop :: "host \<Rightarrow> string list \<Rightarrow> string option" where
  "selectLoop h [] = None"
| "selectLoop h (m # ms) =
     (if hasMediaRecorder h \<and> isTypeSupported h m then Some m else selectLoop h ms)"

definition selectMimeType :: "host \<Rightarrow> string" where
  "selectMimeType h = (case selectLoop h cand of Some m \<Rightarrow> m | None \<Rightarrow> ''video/webm'')"

text \<open>
  The frame-stepped loop, lines 313-323. The clock is the host's: \<open>start\<close> is the
  reading of \<^verbatim>\<open>performance.now()\<close> at line 313 and the list holds the readings of the
  successive callbacks of \<^verbatim>\<open>step\<close>. When the list is used up before the loop has
  finished, the loop is still waiting for its next callback. An exception of
  \<^verbatim>\<open>drawFrame\<close> inside a callback leaves the promise of line 314 unsettled.
\<close>

datatype event = Frame real | RecorderStart string | RecorderStop

datatype loop_status = Finished | Threw error | Waiting

fun stepLoop ::
  "composer \<Rightarrow> real \<Rightarrow> real \<Rightarrow> real list \<Rightarrow> ctx \<Rightarrow> loop_status \<times> event list \<times> ctx" where
  "stepLoop cm start duration [] c = (Waiting, [], c)"
| "stepLoop cm start duration (now # later) c =
     (let t = now - start;
          clamped = min t (duration - 1)
      in case drawFrame cm c clamped of
           Inl (e, c') \<Rightarrow> (Threw e, [Frame clamped], c')
         | Inr c' \<Rightarrow>
             if t < duration then
               (case stepLoop cm start duration later c' of
                  (st, ev, c'') \<Rightarrow> (st, Frame clamped # ev, c''))
             else (Finished, [Frame clamped], c'))"

text \<open>
  \<^verbatim>\<open>startRecording\<close>, lines 265-327. The audio element is created, captured and played
  inside \<^verbatim>\<open>try\<close>/\<^verbatim>\<open>catch\<close> blocks that change neither the frames nor the control flow;
  it is left out. Without \<^verbatim>\<open>window.MediaRecorder\<close> the expression
  \<^verbatim>\<open>new MediaRecorder(...)\<close> at line 295 throws a ReferenceError, which rejects the
  promise of the \<^verbatim>\<open>async\<close> function. The blob of line 304 has the selected type.
\<close>

datatype outcome = Resolved string | Rejected error | Pending

definition startRecording ::
  "composer \<Rightarrow> host \<Rightarrow> ctx \<Rightarrow> real \<Rightarrow> real list \<Rightarrow> outcome \<times> event list \<times> ctx" where
  "startRecording cm h c0 start nows =
     (case drawFrame cm c0 0 of
        Inl (e, c) \<Rightarrow> (Rejected e, [Frame 0], c)
      | Inr c \<Rightarrow>
          (let mime = selectMimeType h in
           if \<not> hasMediaRecorder h then (Rejected ReferenceError, [Frame 0], c)
           else if \<not> recorderAccepts h mime then (Rejected NotSupportedError, [Frame 0], c)
           else
             (let duration = totalMs cm in
              case stepLoop cm start duration nows c of
                (Finished, ev, c') \<Rightarrow>
                  (Resolved mime, [Frame 0, RecorderStart mime] @ ev @ [RecorderStop], c')
              | (st, ev, c') \<Rightarrow> (Pending, [Frame 0, RecorderStart mime] @ ev, c'))))"

text \<open>The download link of the page (line 105 of the page component).\<close>

definition downloadName :: "string \<Rightarrow> string" where
  "downloadName stamp = ''cineforge-'' @ stamp @ ''.webm''"

section \<open>The dropzone\<close>

text \<open>
  \<^verbatim>\<open>onInputChange\<close> and \<^verbatim>\<open>onDrop\<close> of src/components/AssetDropzone.tsx, lines 20-30.
  The argument is the \<^verbatim>\<open>FileList\<close> of the event, \<open>None\<close> when it is \<^verbatim>\<open>null\<close>; the
  result is the list of the calls made to \<^verbatim>\<open>onFiles\<close>, each with its argument.
  \<^verbatim>\<open>onDrop\<close> also resets \<^verbatim>\<open>isOver\<close>.
\<close>

definition onInputChange :: "bool \<Rightarrow> 'f list option \<Rightarrow> 'f list list" where
  "onInputChange multiple target_files =
     (let files = (case target_files of None \<Rightarrow> [] | Some fs \<Rightarrow> fs)
      in if length files \<noteq> 0 then [if multiple then files else [files ! 0]] else [])"

definition onDrop :: "bool \<Rightarrow> 'f list option \<Rightarrow> bool \<times> 'f list list" where
  "onDrop multiple transfer_files =
     (let isOver = False;
          files = (case transfer_files of None \<Rightarrow> [] | Some fs \<Rightarrow> fs)
      in (isOver, if length files \<noteq> 0 then [if multiple then files else [files ! 0]] else []))"

section \<open>Auxiliary notions for the properties\<close>

text \<open>
  The \<open>i\<close>-th image scene when the cursor stood at \<open>cursor\<close> before the loop, and the
  end of the last scene of a list built for \<open>n\<close> bitmaps.
\<close>

definition imageScene :: "real \<Rightarrow> nat \<Rightarrow> scene" where
  "imageScene cursor i =
     \<lparr>kind = Image, idx = Some i, startMs = cursor + real i * perImageMs,
      endMs = cursor + real i * perImageMs + perImageMs\<rparr>"

definition scenesEnd :: "nat \<Rightarrow> real" where
  "scenesEnd n = introMs + real n * perImageMs + priceMs + outroMs"

text \<open>
  Scenes laid end to end from \<open>a\<close> to \<open>b\<close>: each starts where the one before ended and
  none is empty. A list in this relation partitions \<open>[a, b)\<close>.
\<close>

fun chain :: "real \<Rightarrow> scene list \<Rightarrow> real \<Rightarrow> bool" where
  "chain a [] b = (a = b)"
| "chain a (s # ss) b = (startMs s = a \<and> startMs s < endMs s \<and> chain (endMs s) ss b)"

text \<open>
  What a call of \<^verbatim>\<open>drawFrame\<close> leaves behind, whether it returned or threw: the
  context, and the paints on its surface.
\<close>

definition ctxOf :: "(error \<times> ctx) + ctx \<Rightarrow> ctx" where
  "ctxOf r = (case r of Inl (e, c) \<Rightarrow> c | Inr c \<Rightarrow> c)"

definition rendered :: "(error \<times> ctx) + ctx \<Rightarrow> paint list" where
  "rendered r = surface (ctxOf r)"

text \<open>
  The post-processing, recognised on the surface: only \<^verbatim>\<open>drawVignette\<close> fills with a
  radial gradient, only \<^verbatim>\<open>drawLetterbox\<close> fills with \<^verbatim>\<open>rgba(0,0,0,0.75)\<close>, and the
  colour grade is a filter other than \<^verbatim>\<open>none\<close>.
\<close>

definition isVignette :: "paint \<Rightarrow> bool" where
  "isVignette p =
     (case paint_fill p of Some (RadialGradient _ _ _ _ _ _ _) \<Rightarrow> True | _ \<Rightarrow> False)"

definition isLetterboxBar :: "paint \<Rightarrow> bool" where
  "isLetterboxBar p = (paint_fill p = Some (CssColor ''rgba(0,0,0,0.75)''))"

definition isGraded :: "paint \<Rightarrow> bool" where
  "isGraded p = (paint_filter p \<noteq> ''none'')"

definition plain :: "string \<Rightarrow> paint \<Rightarrow> bool" where
  "plain f p = (paint_filter p = f \<and> \<not> isVignette p \<and> \<not> isLetterboxBar p)"

text \<open>
  The memoised duration of the composer is the one of its decoded bitmaps: it was
  computed from an asset count that does not exceed their number.
\<close>

definition rendersAll :: "composer \<Rightarrow> bool" where
  "rendersAll cm =
     (totalMs cm = totalDurationMs (length (bitmaps cm)) (length (bitmaps cm)))"


text \<open>
  The time handed to the renderer by one callback of the frame-stepped loop (line 318),
  the times of the frames in a list of events, and the status and times of the loop when
  no call of the renderer throws.
\<close>

definition clampedAt :: "real \<Rightarrow> real \<Rightarrow> real \<Rightarrow> real" where
  "clampedAt start duration now = min (now - start) (duration - 1)"

fun frameTimes :: "event list \<Rightarrow> real list" where
  "frameTimes [] = []"
| "frameTimes (Frame t # ev) = t # frameTimes ev"
| "frameTimes (e # ev) = frameTimes ev"

fun loopTrace :: "real \<Rightarrow> real \<Rightarrow> real list \<Rightarrow> loop_status \<times> real list" where
  "loopTrace start duration [] = (Waiting, [])"
| "loopTrace start duration (now # later) =
     (let t = now - start;
          clamped = min t (duration - 1)
      in if t < duration then
           (case loopTrace start duration later of (st, ts) \<Rightarrow> (st, clamped # ts))
         else (Finished, [clamped]))"

subsection \<open>A concrete project\<close>

text \<open>
  Modelled from the spec: \<^verbatim>\<open>lerp\<close>, \<^verbatim>\<open>fitCover\<close> and \<^verbatim>\<open>kenBurnsPath\<close> of the
  missing module \<^verbatim>\<open>@/lib/kenburns\<close>: linear interpolation, the centred cover fit, and a
  fixed table of motion presets selected by the index modulo its size. They only fill
  the parameters of the concrete project below.
\<close>

definition specLerp :: "real \<Rightarrow> real \<Rightarrow> real \<Rightarrow> real" where
  "specLerp a b t = a + (b - a) * t"

definition specFitCover :: "real \<Rightarrow> real \<Rightarrow> real \<Rightarrow> real \<Rightarrow> fit" where
  "specFitCover srcW srcH dstW dstH =
     (let s = max (dstW / srcW) (dstH / srcH);
          w = srcW * s;
          h = srcH * s
      in \<lparr>fit_x = (dstW - w) / 2, fit_y = (dstH - h) / 2, fit_w = w, fit_h = h\<rparr>)"

definition specKenBurnsPath :: "nat \<Rightarrow> kb_path" where
  "specKenBurnsPath i =
     (if i mod 2 = 0
      then \<lparr>startScale = 1, endScale = 1.1, startX = 0, endX = 1, startY = 0.5, endY = 0.5\<rparr>
      else \<lparr>startScale = 1.1, endScale = 1, startX = 1, endX = 0, startY = 0.5, endY = 0.5\<rparr>)"

text \<open>
  The page's default texts with \<open>n\<close> images, all decoded, and the duration the memo
  computes for them.
\<close>

definition demoBitmap :: bitmap where
  "demoBitmap = \<lparr>bmp_width = 800, bmp_height = 600, bmp_pixels = 0\<rparr>"

definition demoFile :: asset_file where
  "demoFile = \<lparr>file_name = ''lamp.png'', file_type = ''image/png''\<rparr>"

definition demo :: "nat \<Rightarrow> style \<Rightarrow> composer" where
  "demo n sty =
     \<lparr>assets = replicate n demoFile, audioFile = None, productName = ''Aurora Lamp'',
      tagline = ''Light. Sculpted.'',
      features = [''Premium anodized aluminum'', ''Adaptive ambient glow'', ''12h battery life''],
      cta = ''Shop Now'', price = ''$129'', ratio = R16_9, style = sty,
      bitmaps = replicate n demoBitmap, totalMs = totalDurationMs n n,
      fitCover = specFitCover, kenBurnsPath = specKenBurnsPath, lerp = specLerp\<rparr>"

text \<open>
  After two decoded images, three files dropped none of which decodes: the bitmap count
  falls to none, the memo runs again and counts three assets, the scene list none.
\<close>

definition undecoded :: composer where
  "undecoded = (demo 0 Cinematic)\<lparr>assets := replicate 3 demoFile, totalMs := totalDurationMs 0 3\<rparr>"

text \<open>
  Hosts: one that records VP8 and plain WebM but not VP9, and one without
  \<^verbatim>\<open>MediaRecorder\<close>.
\<close>

definition vp8Host :: host where
  "vp8Host =
     \<lparr>hasMediaRecorder = True,
      isTypeSupported = (\<lambda>m. m \<noteq> ''video/webm;codecs=vp9,opus''),
      recorderAccepts = (\<lambda>m. m \<noteq> ''video/webm;codecs=vp9,opus'')\<rparr>"


subsection \<open>The memo and the preview loop\<close>

text \<open>
  \<^verbatim>\<open>useMemo\<close> at lines 36-40 lists \<^verbatim>\<open>bitmaps.length\<close> as its only dependency: on a
  render it keeps the value it has unless \<^verbatim>\<open>bitmaps.length\<close> differs from the one it
  was computed for, and then runs the callback with the counts of that render. A render
  is given by its pair of counts (\<^verbatim>\<open>bitmaps.length\<close>, \<^verbatim>\<open>assets.length\<close>).
\<close>

record memo =
  memo_dep :: nat
  memo_value :: real

definition useMemoTotal :: "memo option \<Rightarrow> nat \<Rightarrow> nat \<Rightarrow> memo" where
  "useMemoTotal prev bitmaps_length assets_length =
     (case prev of
        None \<Rightarrow>
          \<lparr>memo_dep = bitmaps_length,
           memo_value = totalDurationMs bitmaps_length assets_length\<rparr>
      | Some m \<Rightarrow>
          if memo_dep m = bitmaps_length then m
          else \<lparr>memo_dep = bitmaps_length,
                memo_value = totalDurationMs bitmaps_length assets_length\<rparr>)"

fun renderAll :: "memo option \<Rightarrow> (nat \<times> nat) list \<Rightarrow> memo option" where
  "renderAll prev [] = prev"
| "renderAll prev ((bitmaps_length, assets_length) # later) =
     renderAll (Some (useMemoTotal prev bitmaps_length assets_length)) later"

text \<open>
  The asset count the callback of the memo last ran with, over a history of renders:
  \<open>seen\<close> is \<^verbatim>\<open>bitmaps.length\<close> of the render before (\<open>None\<close> before the first),
  \<open>a0\<close> the count of the last run so far. A composer is the engine after a history of
  renders when its counts are those of the last render and its duration is the value
  the memo holds then.
\<close>

fun usedCount :: "nat option \<Rightarrow> nat \<Rightarrow> (nat \<times> nat) list \<Rightarrow> nat" where
  "usedCount seen a0 [] = a0"
| "usedCount seen a0 ((b, a) # later) =
     (if seen = Some b then usedCount (Some b) a0 later else usedCount (Some b) a later)"

definition heldAfter :: "(nat \<times> nat) list \<Rightarrow> composer \<Rightarrow> bool" where
  "heldAfter rs cm =
     (rs \<noteq> []
      \<and> last rs = (length (bitmaps cm), length (assets cm))
      \<and> renderAll None rs =
          Some \<lparr>memo_dep = length (bitmaps cm), memo_value = totalMs cm\<rparr>)"

text \<open>
  Three files dropped of which two decode: three assets, two bitmaps, and the duration
  of three. Then two images dropped in their place: two assets, two bitmaps, and still
  the duration the memo computed when the bitmap count last changed. And a host whose
  recorder reports no type as supported, yet accepts plain WebM.
\<close>

definition partlyDecoded :: composer where
  "partlyDecoded = (demo 2 Cinematic)\<lparr>assets := replicate 3 demoFile, totalMs := 13700\<rparr>"

definition staleProject :: composer where
  "staleProject = (demo 2 Cinematic)\<lparr>totalMs := 13700\<rparr>"


text \<open>
  The remainder \<^verbatim>\<open>a % b\<close> of JavaScript on numbers, for \<open>b \<noteq> 0\<close>: the quotient is
  truncated towards zero. The callback \<^verbatim>\<open>loop\<close> of the preview, lines 251-257, takes the
  content of \<^verbatim>\<open>previewStartRef\<close> and the timestamp of the animation frame, and returns
  the new content of the reference with the result of the renderer.
\<close>

definition jsRem :: "real \<Rightarrow> real \<Rightarrow> real" where
  "jsRem a b = a - b * of_int (if 0 \<le> a / b then \<lfloor>a / b\<rfloor> else \<lceil>a / b\<rceil>)"

definition previewLoop ::
  "composer \<Rightarrow> real option \<Rightarrow> ctx \<Rightarrow> real \<Rightarrow> real option \<times> ((error \<times> ctx) + ctx)" where
  "previewLoop cm previewStart c ts =
     (let start = (case previewStart of None \<Rightarrow> ts | Some s \<Rightarrow> s);
          elapsed = jsRem (ts - start) (max (totalMs cm) 1)
      in (Some start, drawFrame cm c elapsed))"

subsection \<open>What of the context a frame depends on\<close>

text \<open>
  The part of a context that decides what is painted next and what is on the surface,
  and a context with the rest of its state (fill style, font, alignment, baseline and
  path) reset.
\<close>

definition obs :: "ctx \<Rightarrow> real \<times> real \<times> real \<times> string \<times> paint list" where
  "obs c = (canvas_width c, canvas_height c, globalAlpha c, ctx_filter c, surface c)"

definition forget :: "ctx \<Rightarrow> ctx" where
  "forget c =
     c\<lparr>fillStyle := CssColor [], ctx_font := DefaultFont, textAlign := AlignStart,
       textBaseline := Alphabetic, path := []\<rparr>"

section \<open>Timing of the scenes\<close>

lemma imageLoop_eq:
  "imageLoop n (sc, cursor) =
     (sc @ map (imageScene cursor) [0..<n], cursor + real n * perImageMs)"
proof (induction n)
  case 0
  show ?case by (simp add: imageLoop_def)
next
  case (Suc n)
  have "imageLoop (Suc n) (sc, cursor) =
        (\<lambda>(sc, cursor).
            (sc @ [\<lparr>kind = Image, idx = Some n, startMs = cursor, endMs = cursor + perImageMs\<rparr>],
             cursor + perImageMs)) (imageLoop n (sc, cursor))"
    by (simp add: imageLoop_def)
  also have "\<dots> = (sc @ map (imageScene cursor) [0..<Suc n], cursor + real (Suc n) * perImageMs)"
    by (simp add: Suc.IH imageScene_def algebra_simps)
  finally show ?case .
qed

lemma scenes_eq:
  "scenes n =
     \<lparr>kind = Intro, idx = None, startMs = 0, endMs = introMs\<rparr> #
     map (imageScene introMs) [0..<n] @
     [\<lparr>kind = Price, idx = None, startMs = introMs + real n * perImageMs,
       endMs = introMs + real n * perImageMs + priceMs\<rparr>,
      \<lparr>kind = Outro, idx = None, startMs = introMs + real n * perImageMs + priceMs,
       endMs = introMs + real n * perImageMs + priceMs + outroMs\<rparr>]"
  by (simp add: scenes_def imageLoop_eq Let_def)

lemma scenes_0:
  "scenes 0 =
     [\<lparr>kind = Intro, idx = None, startMs = 0, endMs = 1500\<rparr>,
      \<lparr>kind = Price, idx = None, startMs = 1500, endMs = 3300\<rparr>,
      \<lparr>kind = Outro, idx = None, startMs = 3300, endMs = 4100\<rparr>]"
  by (simp add: scenes_eq introMs_def priceMs_def outroMs_def)

lemma scenes_1:
  "scenes (Suc 0) =
     [\<lparr>kind = Intro, idx = None, startMs = 0, endMs = 1500\<rparr>,
      \<lparr>kind = Image, idx = Some 0, startMs = 1500, endMs = 4700\<rparr>,
      \<lparr>kind = Price, idx = None, startMs = 4700, endMs = 6500\<rparr>,
      \<lparr>kind = Outro, idx = None, startMs = 6500, endMs = 7300\<rparr>]"
  by (simp add: scenes_eq imageScene_def introMs_def perImageMs_def priceMs_def outroMs_def)

lemma total_1: "totalDurationMs (Suc 0) (Suc 0) = 7300"
  by (simp add: totalDurationMs_def Let_def introMs_def perImageMs_def priceMs_def outroMs_def)

lemma total_0: "totalDurationMs 0 0 = 1500"
  by (simp add: totalDurationMs_def introMs_def)

lemma length_loadBitmaps: "length (loadBitmaps decode fs) \<le> length fs"
  by (simp add: loadBitmaps_def map_filter_def)

text \<open>
  The callback of the memo: \<open>introMs\<close> for no asset and
  \<open>introMs + N * perImageMs + priceMs + outroMs\<close> otherwise, where \<open>N\<close> is the larger of
  the bitmap count and the asset count (the asset count itself once the files are
  decoded, since decoding only drops files). For \<open>N = 3\<close> it is 13700, and the second
  image scene of the list built for three bitmaps spans \<open>[4700, 7900)\<close>.
\<close>

lemma callback_duration_formula:
  "totalDurationMs b a =
     (if max b a = 0 then introMs else introMs + real (max b a) * perImageMs + priceMs + outroMs)
   \<and> totalDurationMs b a =
     (if max b a = 0 then 1500 else 1500 + real (max b a) * 3200 + 1800 + 800)
   \<and> totalDurationMs (length (loadBitmaps decode fs)) (length fs) =
     (if length fs = 0 then 1500 else 1500 + real (length fs) * 3200 + 1800 + 800)
   \<and> totalDurationMs 3 3 = 13700
   \<and> scenes 3 ! 2 = \<lparr>kind = Image, idx = Some 1, startMs = 4700, endMs = 7900\<rparr>"
proof (intro conjI)
  show "totalDurationMs b a =
     (if max b a = 0 then introMs else introMs + real (max b a) * perImageMs + priceMs + outroMs)"
    by (simp add: totalDurationMs_def Let_def)
  show f: "\<And>b a. totalDurationMs b a =
     (if max b a = 0 then 1500 else 1500 + real (max b a) * 3200 + 1800 + 800)"
    by (simp add: totalDurationMs_def Let_def introMs_def perImageMs_def priceMs_def outroMs_def)
  have m: "max (length (loadBitmaps decode fs)) (length fs) = length fs"
    using length_loadBitmaps[of decode fs] by simp
  show "totalDurationMs (length (loadBitmaps decode fs)) (length fs) =
     (if length fs = 0 then 1500 else 1500 + real (length fs) * 3200 + 1800 + 800)"
    unfolding f m by (rule refl)
  show "totalDurationMs 3 3 = 13700" by (simp add: f)
  show "scenes 3 ! 2 = \<lparr>kind = Image, idx = Some 1, startMs = 4700, endMs = 7900\<rparr>"
    by (simp add: scenes_eq imageScene_def introMs_def perImageMs_def upt_rec numeral_eq_Suc)
qed

section \<open>The scene list as a partition\<close>

lemma chain_append: "chain a xs m \<Longrightarrow> chain m ys b \<Longrightarrow> chain a (xs @ ys) b"
  by (induction xs arbitrary: a) auto

lemma chain_le: "chain a xs b \<Longrightarrow> a \<le> b"
  by (induction xs arbitrary: a) force+

lemma chain_images: "chain cur (map (imageScene cur) [0..<n]) (cur + real n * perImageMs)"
proof (induction n)
  case 0
  show ?case by simp
next
  case (Suc n)
  have "chain (cur + real n * perImageMs) [imageScene cur n] (cur + real (Suc n) * perImageMs)"
    by (simp add: imageScene_def perImageMs_def algebra_simps)
  with Suc show ?case by (simp add: chain_append)
qed

lemma chain_scenes: "chain 0 (scenes n) (scenesEnd n)"
proof -
  let ?tail = "[\<lparr>kind = Price, idx = None, startMs = introMs + real n * perImageMs,
       endMs = introMs + real n * perImageMs + priceMs\<rparr>,
      \<lparr>kind = Outro, idx = None, startMs = introMs + real n * perImageMs + priceMs,
       endMs = introMs + real n * perImageMs + priceMs + outroMs\<rparr>]"
  have tail: "chain (introMs + real n * perImageMs) ?tail (scenesEnd n)"
    by (simp add: scenesEnd_def priceMs_def outroMs_def)
  have "chain introMs (map (imageScene introMs) [0..<n] @ ?tail) (scenesEnd n)"
    by (rule chain_append[OF chain_images tail])
  then show ?thesis by (simp add: scenes_eq introMs_def)
qed

lemma chain_count:
  "chain a sc b \<Longrightarrow> length (filter (inScene t) sc) = (if a \<le> t \<and> t < b then 1 else 0)"
proof (induction sc arbitrary: a)
  case Nil
  then show ?case by auto
next
  case (Cons s ss)
  from Cons.prems have c: "chain (endMs s) ss b" and st: "startMs s = a" "a < endMs s"
    by auto
  from chain_le[OF c] have le: "endMs s \<le> b" .
  show ?case using Cons.IH[OF c] st le by (auto simp: inScene_def)
qed

lemma chain_find_some:
  "chain a sc b \<Longrightarrow> a \<le> t \<Longrightarrow> t < b \<Longrightarrow>
   \<exists>s. List.find (inScene t) sc = Some s \<and> inScene t s \<and> s \<in> set sc"
proof (induction sc arbitrary: a)
  case Nil
  then show ?case by auto
next
  case (Cons s ss)
  show ?case
  proof (cases "inScene t s")
    case True
    then show ?thesis by simp
  next
    case False
    with Cons.prems have "endMs s \<le> t" by (auto simp: inScene_def)
    with Cons.prems Cons.IH[of "endMs s"] False show ?thesis by auto
  qed
qed

lemma chain_find_none:
  "chain a sc b \<Longrightarrow> t < a \<or> b \<le> t \<Longrightarrow> List.find (inScene t) sc = None"
proof (induction sc arbitrary: a)
  case Nil
  then show ?case by auto
next
  case (Cons s ss)
  from Cons.prems have c: "chain (endMs s) ss b" and st: "startMs s = a" "a < endMs s"
    by auto
  from chain_le[OF c] have le: "endMs s \<le> b" .
  have "\<not> inScene t s" using Cons.prems(2) st le by (auto simp: inScene_def)
  moreover have "List.find (inScene t) ss = None"
    using Cons.IH[OF c] Cons.prems(2) st le by auto
  ultimately show ?case by simp
qed

lemma image_indices: "map idx (filter (\<lambda>s. kind s = Image) (scenes n)) = map Some [0..<n]"
  by (simp add: scenes_eq imageScene_def filter_map comp_def)

lemma end_is_total: "0 < n \<Longrightarrow> scenesEnd n = totalDurationMs n n"
  by (simp add: scenesEnd_def totalDurationMs_def)

lemma chain_end_unique: "chain a sc b \<Longrightarrow> chain a sc b' \<Longrightarrow> b = b'"
  by (induction sc arbitrary: a) auto

lemma chain_scenes_iff: "chain 0 (scenes n) e \<longleftrightarrow> e = scenesEnd n"
  using chain_scenes[of n] chain_end_unique by blast

section \<open>The lookup of the scene\<close>

lemma total_le_end: "a \<le> b \<Longrightarrow> totalDurationMs b a \<le> scenesEnd b"
  by (simp add: totalDurationMs_def scenesEnd_def Let_def max_def introMs_def perImageMs_def
      priceMs_def outroMs_def)

lemma total_ge_one: "1 \<le> totalDurationMs b a"
  by (simp add: totalDurationMs_def Let_def introMs_def perImageMs_def priceMs_def outroMs_def)

lemma end_le_total: "b < a \<Longrightarrow> scenesEnd b \<le> totalDurationMs b a - 1"
proof -
  assume ba: "b < a"
  then have "real b + 1 \<le> real a" by simp
  then have "real b * 3200 + 3200 \<le> real a * 3200" by simp
  with ba show ?thesis
    by (simp add: totalDurationMs_def scenesEnd_def Let_def max_def introMs_def perImageMs_def
        priceMs_def outroMs_def)
qed

lemma total_is_end: "a \<le> b \<Longrightarrow> 0 < b \<Longrightarrow> totalDurationMs b a = scenesEnd b"
  by (simp add: totalDurationMs_def scenesEnd_def Let_def max_def)

lemma end_lt_total: "b < a \<Longrightarrow> scenesEnd b < totalDurationMs b a"
  using end_le_total[of b a] by simp

lemma lookup_ok:
  assumes "0 \<le> tMs" and "tot = totalDurationMs b a" and "a \<le> b"
  shows "\<exists>s. List.find (inScene (min tMs (tot - 1))) (scenes b) = Some s
             \<and> inScene (min tMs (tot - 1)) s \<and> s \<in> set (scenes b)"
proof -
  have "0 \<le> min tMs (tot - 1)" using assms(1,2) total_ge_one[of b a] by simp
  moreover have "min tMs (tot - 1) < scenesEnd b"
    using total_le_end[OF assms(3)] assms(2) by simp
  ultimately show ?thesis using chain_find_some[OF chain_scenes] by blast
qed

lemma lookup_fail:
  assumes "scenesEnd b \<le> tMs" and "tot = totalDurationMs b a" and "b < a"
  shows "List.find (inScene (min tMs (tot - 1))) (scenes b) = None"
proof -
  have "scenesEnd b \<le> min tMs (tot - 1)"
    using end_le_total[OF assms(3)] assms(1,2) by simp
  then show ?thesis using chain_find_none[OF chain_scenes] by blast
qed

lemma lookup_negative:
  assumes "tMs < 0"
  shows "List.find (inScene (min tMs (tot - 1))) (scenes b) = None"
proof -
  have "min tMs (tot - 1) < 0" using assms by simp
  then show ?thesis using chain_find_none[OF chain_scenes] by blast
qed

lemma drawFrame_found:
  "List.find (inScene (frameTime cm tMs)) (scenes (length (bitmaps cm))) = Some sc \<Longrightarrow>
   drawFrame cm c tMs = Inr (paintScene cm sc (frameTime cm tMs) (background c))"
  by (simp add: drawFrame_def Let_def)

lemma drawFrame_missing:
  "List.find (inScene (frameTime cm tMs)) (scenes (length (bitmaps cm))) = None \<Longrightarrow>
   drawFrame cm c tMs = Inl (TypeError, background c)"
  by (simp add: drawFrame_def Let_def)

lemma find_inScene:
  "List.find (inScene t) sc = Some s \<Longrightarrow> inScene t s \<and> s \<in> set sc"
  by (auto simp: find_Some_iff)

lemma drawFrame_ok:
  assumes "rendersAll cm" and "0 \<le> tMs"
  shows "\<exists>sc\<in>set (scenes (length (bitmaps cm))).
           inScene (frameTime cm tMs) sc
           \<and> drawFrame cm c tMs = Inr (paintScene cm sc (frameTime cm tMs) (background c))"
proof -
  from assms(1) have a: "totalMs cm = totalDurationMs (length (bitmaps cm)) (length (bitmaps cm))"
    by (simp add: rendersAll_def)
  from lookup_ok[OF assms(2) a order_refl]
  obtain sc where "List.find (inScene (frameTime cm tMs)) (scenes (length (bitmaps cm))) = Some sc"
    "inScene (frameTime cm tMs) sc" "sc \<in> set (scenes (length (bitmaps cm)))"
    by (auto simp: frameTime_def)
  then show ?thesis using drawFrame_found by blast
qed

lemma rendersAll_total: "rendersAll cm \<Longrightarrow> 1 \<le> totalMs cm"
  using total_ge_one by (auto simp: rendersAll_def)

lemma rendersAll_iff:
  "rendersAll cm \<longleftrightarrow>
     (\<exists>a\<le>length (bitmaps cm). totalMs cm = totalDurationMs (length (bitmaps cm)) a)"
  by (auto simp: rendersAll_def totalDurationMs_def Let_def max_def)

lemma demo_fields:
  "bitmaps (demo n sty) = replicate n demoBitmap"
  "totalMs (demo n sty) = totalDurationMs n n"
  "style (demo n sty) = sty"
  "price (demo n sty) = ''$129''"
  "cta (demo n sty) = ''Shop Now''"
  by (simp_all add: demo_def)

lemma demo_rendersAll: "rendersAll (demo n sty)"
  by (auto simp: rendersAll_def demo_fields)

lemma undecoded_fields:
  "bitmaps undecoded = []"
  "totalMs undecoded = 13700"
  by (simp_all add: undecoded_def demo_def totalDurationMs_def Let_def introMs_def perImageMs_def
      priceMs_def outroMs_def)

text \<open>
  C8. For every timestamp \<open>tMs \<ge> 0\<close> the lookup of \<^verbatim>\<open>drawFrame\<close> finds a scene that
  contains the time of the frame, and the call returns, provided the duration was
  computed from an asset count \<open>a\<close> that does not exceed the number of decoded bitmaps
  (so that \<open>n = bitmaps.length\<close>). When fewer bitmaps were decoded than assets counted,
  every timestamp at or beyond the end of the last scene gives a time of the frame
  beyond every scene: \<^verbatim>\<open>find\<close> returns \<^verbatim>\<open>undefined\<close> and the call throws a
  TypeError.
\<close>

theorem scene_lookup_total:
  "(0 \<le> tMs \<and> totalMs cm = totalDurationMs (length (bitmaps cm)) a \<and> a \<le> length (bitmaps cm) \<longrightarrow>
      (\<exists>sc. List.find (inScene (frameTime cm tMs)) (scenes (length (bitmaps cm))) = Some sc
            \<and> inScene (frameTime cm tMs) sc
            \<and> drawFrame cm c tMs = Inr (paintScene cm sc (frameTime cm tMs) (background c))))
   \<and> (length (bitmaps cm) < a \<and> totalMs cm = totalDurationMs (length (bitmaps cm)) a
        \<and> scenesEnd (length (bitmaps cm)) \<le> tMs \<longrightarrow>
      scenesEnd (length (bitmaps cm)) \<le> frameTime cm tMs
      \<and> List.find (inScene (frameTime cm tMs)) (scenes (length (bitmaps cm))) = None
      \<and> drawFrame cm c tMs = Inl (TypeError, background c))"
proof (intro conjI impI)
  assume h: "0 \<le> tMs \<and> totalMs cm = totalDurationMs (length (bitmaps cm)) a
             \<and> a \<le> length (bitmaps cm)"
  from lookup_ok[of tMs "totalMs cm" "length (bitmaps cm)" a] h
  obtain sc where
    "List.find (inScene (frameTime cm tMs)) (scenes (length (bitmaps cm))) = Some sc"
    "inScene (frameTime cm tMs) sc"
    by (auto simp: frameTime_def)
  then show "\<exists>sc. List.find (inScene (frameTime cm tMs)) (scenes (length (bitmaps cm))) = Some sc
            \<and> inScene (frameTime cm tMs) sc
            \<and> drawFrame cm c tMs = Inr (paintScene cm sc (frameTime cm tMs) (background c))"
    using drawFrame_found by blast
next
  assume h: "length (bitmaps cm) < a \<and> totalMs cm = totalDurationMs (length (bitmaps cm)) a
        \<and> scenesEnd (length (bitmaps cm)) \<le> tMs"
  show "scenesEnd (length (bitmaps cm)) \<le> frameTime cm tMs"
    using h end_le_total[of "length (bitmaps cm)" a] by (simp add: frameTime_def)
  have n: "List.find (inScene (frameTime cm tMs)) (scenes (length (bitmaps cm))) = None"
    using lookup_fail[of "length (bitmaps cm)" tMs "totalMs cm" a] h by (simp add: frameTime_def)
  then show "List.find (inScene (frameTime cm tMs)) (scenes (length (bitmaps cm))) = None" .
  from n show "drawFrame cm c tMs = Inl (TypeError, background c)" by (rule drawFrame_missing)
qed

theorem scene_lookup_total_witness:
  "(\<exists>sc. inScene (frameTime (demo 2 Modern) 20000) sc
         \<and> drawFrame (demo 2 Modern) (freshCtx 1280 720) 20000 =
             Inr (paintScene (demo 2 Modern) sc (frameTime (demo 2 Modern) 20000)
                    (background (freshCtx 1280 720))))
   \<and> drawFrame undecoded (freshCtx 1280 720) 5000 =
       Inl (TypeError, background (freshCtx 1280 720))"
proof -
  have h1: "(0::real) \<le> 20000
            \<and> totalMs (demo 2 Modern) = totalDurationMs (length (bitmaps (demo 2 Modern))) 2
            \<and> 2 \<le> length (bitmaps (demo 2 Modern))"
    by (simp add: demo_fields)
  have h2: "length (bitmaps undecoded) < 3
            \<and> totalMs undecoded = totalDurationMs (length (bitmaps undecoded)) 3
            \<and> scenesEnd (length (bitmaps undecoded)) \<le> 5000"
    by (simp add: undecoded_fields scenesEnd_def totalDurationMs_def Let_def introMs_def
        perImageMs_def priceMs_def outroMs_def)
  from scene_lookup_total[of 20000 "demo 2 Modern" 2 "freshCtx 1280 720"] h1
    scene_lookup_total[of 5000 undecoded 3 "freshCtx 1280 720"] h2
  show ?thesis by blast
qed

text \<open>
  C3, as amended. The renderer takes \<open>min tMs (totalDurationMs - 1)\<close> as the time of
  the frame: a timestamp at or beyond \<open>totalDurationMs - 1\<close> becomes
  \<open>totalDurationMs - 1\<close>, one in \<open>[0, totalDurationMs - 1]\<close> is kept, so for every
  \<open>tMs \<ge> 0\<close> the time lies in \<open>[0, totalDurationMs - 1]\<close>. The scene painted is the
  first one that contains that time; without one the call throws. When the duration
  was computed from a count the decoded bitmaps reach, every \<open>tMs \<ge> 0\<close> has its scene.
\<close>

theorem frame_time_upper_clamp:
  "frameTime cm tMs = min tMs (totalMs cm - 1)
   \<and> (totalMs cm - 1 \<le> tMs \<longrightarrow> frameTime cm tMs = totalMs cm - 1)
   \<and> (tMs \<le> totalMs cm - 1 \<longrightarrow> frameTime cm tMs = tMs)
   \<and> (0 \<le> tMs \<and> totalMs cm = totalDurationMs b a \<longrightarrow>
        0 \<le> frameTime cm tMs \<and> frameTime cm tMs \<le> totalMs cm - 1)
   \<and> (case List.find (inScene (frameTime cm tMs)) (scenes (length (bitmaps cm))) of
         Some sc \<Rightarrow>
           inScene (frameTime cm tMs) sc
           \<and> drawFrame cm c tMs = Inr (paintScene cm sc (frameTime cm tMs) (background c))
       | None \<Rightarrow> drawFrame cm c tMs = Inl (TypeError, background c))
   \<and> (0 \<le> tMs \<and> rendersAll cm \<longrightarrow>
        (\<exists>sc\<in>set (scenes (length (bitmaps cm))).
           inScene (frameTime cm tMs) sc
           \<and> drawFrame cm c tMs = Inr (paintScene cm sc (frameTime cm tMs) (background c))))"
proof (intro conjI impI)
  show "frameTime cm tMs = min tMs (totalMs cm - 1)" by (simp add: frameTime_def)
  show "frameTime cm tMs = totalMs cm - 1" if "totalMs cm - 1 \<le> tMs"
    using that by (simp add: frameTime_def)
  show "frameTime cm tMs = tMs" if "tMs \<le> totalMs cm - 1"
    using that by (simp add: frameTime_def)
  show "0 \<le> frameTime cm tMs" if "0 \<le> tMs \<and> totalMs cm = totalDurationMs b a"
    using that total_ge_one[of b a] by (simp add: frameTime_def)
  show "frameTime cm tMs \<le> totalMs cm - 1" if "0 \<le> tMs \<and> totalMs cm = totalDurationMs b a"
    by (simp add: frameTime_def)
  show "case List.find (inScene (frameTime cm tMs)) (scenes (length (bitmaps cm))) of
         Some sc \<Rightarrow>
           inScene (frameTime cm tMs) sc
           \<and> drawFrame cm c tMs = Inr (paintScene cm sc (frameTime cm tMs) (background c))
       | None \<Rightarrow> drawFrame cm c tMs = Inl (TypeError, background c)"
    by (auto simp: drawFrame_found drawFrame_missing dest: find_inScene split: option.splits)
  show "\<exists>sc\<in>set (scenes (length (bitmaps cm))).
           inScene (frameTime cm tMs) sc
           \<and> drawFrame cm c tMs = Inr (paintScene cm sc (frameTime cm tMs) (background c))"
    if "0 \<le> tMs \<and> rendersAll cm"
    using that drawFrame_ok by blast
qed

theorem frame_time_upper_clamp_witness:
  "frameTime (demo 1 Cinematic) 9000 = 7299
   \<and> frameTime (demo 1 Cinematic) 5000 = 5000
   \<and> (\<exists>sc\<in>set (scenes (length (bitmaps (demo 1 Cinematic)))).
         inScene (frameTime (demo 1 Cinematic) 9000) sc
         \<and> drawFrame (demo 1 Cinematic) (freshCtx 1280 720) 9000 =
             Inr (paintScene (demo 1 Cinematic) sc (frameTime (demo 1 Cinematic) 9000)
                    (background (freshCtx 1280 720))))"
proof -
  have t: "totalMs (demo 1 Cinematic) = 7300" by (simp add: demo_fields total_1)
  have h1: "totalMs (demo 1 Cinematic) - 1 \<le> 9000" unfolding t by simp
  have h2: "5000 \<le> totalMs (demo 1 Cinematic) - 1" unfolding t by simp
  have h3: "(0::real) \<le> 9000 \<and> rendersAll (demo 1 Cinematic)" by (simp add: demo_rendersAll)
  from frame_time_upper_clamp[of "demo 1 Cinematic" 9000 1 1 "freshCtx 1280 720"] h1 h3
  have a: "frameTime (demo 1 Cinematic) 9000 = totalMs (demo 1 Cinematic) - 1"
    and b: "\<exists>sc\<in>set (scenes (length (bitmaps (demo 1 Cinematic)))).
         inScene (frameTime (demo 1 Cinematic) 9000) sc
         \<and> drawFrame (demo 1 Cinematic) (freshCtx 1280 720) 9000 =
             Inr (paintScene (demo 1 Cinematic) sc (frameTime (demo 1 Cinematic) 9000)
                    (background (freshCtx 1280 720)))"
    by blast+
  from frame_time_upper_clamp[of "demo 1 Cinematic" 5000 1 1 "freshCtx 1280 720"] h2
  have c: "frameTime (demo 1 Cinematic) 5000 = 5000" by blast
  from a b c t show ?thesis by simp
qed

theorem negative_time_not_clamped:
  "frameTime (demo 1 Cinematic) (- 5) = - 5
   \<and> drawFrame (demo 1 Cinematic) (freshCtx 1280 720) (- 5) =
       Inl (TypeError, background (freshCtx 1280 720))"
proof -
  have t: "frameTime (demo 1 Cinematic) (- 5) = - 5"
    by (simp add: frameTime_def demo_fields total_1)
  have "List.find (inScene (frameTime (demo 1 Cinematic) (- 5)))
          (scenes (length (bitmaps (demo 1 Cinematic)))) = None"
    unfolding frameTime_def by (rule lookup_negative) simp
  then show ?thesis using t by (simp add: drawFrame_missing)
qed


section \<open>The memoised duration and the preview loop\<close>

lemma useMemoTotal_form:
  assumes "case prev of None \<Rightarrow> True
           | Some m \<Rightarrow> \<exists>a. memo_value m = totalDurationMs (memo_dep m) a"
  shows "memo_dep (useMemoTotal prev b a) = b
         \<and> (\<exists>a'. memo_value (useMemoTotal prev b a) = totalDurationMs b a')"
  using assms by (auto simp: useMemoTotal_def split: option.splits)

lemma renderAll_form:
  assumes "case prev of None \<Rightarrow> True
           | Some m \<Rightarrow> \<exists>a. memo_value m = totalDurationMs (memo_dep m) a"
    and "renderAll prev rs = Some m"
  shows "\<exists>a. memo_value m = totalDurationMs (memo_dep m) a"
  using assms
proof (induction rs arbitrary: prev)
  case Nil
  then show ?case by simp
next
  case (Cons r rs)
  obtain b a where r: "r = (b, a)" by (cases r)
  from useMemoTotal_form[OF Cons.prems(1), of b a]
  have "case Some (useMemoTotal prev b a) of None \<Rightarrow> True
        | Some m \<Rightarrow> \<exists>a. memo_value m = totalDurationMs (memo_dep m) a"
    by simp
  from Cons.IH[OF this] Cons.prems(2) r show ?case by simp
qed

lemma memo_first_render:
  "renderAll None [(b, a)] = Some \<lparr>memo_dep = b, memo_value = totalDurationMs b a\<rparr>"
  by (simp add: useMemoTotal_def)

lemma memo_keeps_value:
  "renderAll None [(0, 0), (0, 2)] = Some \<lparr>memo_dep = 0, memo_value = 1500\<rparr>"
  "totalDurationMs 0 2 = 10500"
  by (simp_all add: useMemoTotal_def totalDurationMs_def Let_def introMs_def perImageMs_def
      priceMs_def outroMs_def)

lemma renderAll_value_gen:
  "renderAll (Some \<lparr>memo_dep = d, memo_value = totalDurationMs d a0\<rparr>) rs = Some m \<Longrightarrow>
   memo_value m = totalDurationMs (memo_dep m) (usedCount (Some d) a0 rs)
   \<and> memo_dep m = (if rs = [] then d else fst (last rs))"
proof (induction rs arbitrary: d a0)
  case Nil
  then show ?case by auto
next
  case (Cons r rs)
  obtain b a where r: "r = (b, a)" by (cases r)
  show ?case
  proof (cases "d = b")
    case True
    with Cons.prems r have "renderAll (Some \<lparr>memo_dep = b, memo_value = totalDurationMs b a0\<rparr>) rs = Some m"
      by (simp add: useMemoTotal_def)
    from Cons.IH[OF this] True r show ?thesis by auto
  next
    case False
    with Cons.prems r have "renderAll (Some \<lparr>memo_dep = b, memo_value = totalDurationMs b a\<rparr>) rs = Some m"
      by (simp add: useMemoTotal_def)
    from Cons.IH[OF this] False r show ?thesis by auto
  qed
qed

lemma renderAll_value:
  assumes "rs \<noteq> []" and "renderAll None rs = Some m"
  shows "memo_value m = totalDurationMs (memo_dep m) (usedCount None 0 rs)
         \<and> memo_dep m = fst (last rs)"
proof -
  obtain b a later where rs: "rs = (b, a) # later" using assms(1) by (cases rs) auto
  with assms(2) have "renderAll (Some \<lparr>memo_dep = b, memo_value = totalDurationMs b a\<rparr>) later = Some m"
    by (simp add: useMemoTotal_def)
  from renderAll_value_gen[OF this] rs show ?thesis by auto
qed

lemma heldAfter_total:
  "heldAfter rs cm \<Longrightarrow> totalMs cm = totalDurationMs (length (bitmaps cm)) (usedCount None 0 rs)"
  using renderAll_value[of rs "\<lparr>memo_dep = length (bitmaps cm), memo_value = totalMs cm\<rparr>"]
  by (auto simp: heldAfter_def)

lemma total_2: "totalDurationMs 2 2 = 10500" "totalDurationMs 2 3 = 13700" "totalDurationMs 3 3 = 13700"
  "totalDurationMs 0 3 = 13700"
  by (simp_all add: totalDurationMs_def Let_def introMs_def perImageMs_def priceMs_def outroMs_def)

lemma staleProject_fields:
  "length (bitmaps staleProject) = 2" "length (assets staleProject) = 2" "totalMs staleProject = 13700"
  by (simp_all add: staleProject_def demo_def)

text \<open>
  C1. The duration the engine holds is not always the one of its asset count. The memo
  lists \<^verbatim>\<open>bitmaps.length\<close> as its only dependency although its callback also reads
  \<^verbatim>\<open>assets.length\<close> (every other hook of the component lists all it reads), so a
  change of the assets that leaves the number of bitmaps as it was is not seen. Three
  files are dropped of which two decode, then two images are dropped in their place:
  the renders have the counts (0, 0), (0, 3), (2, 3), (2, 2), (2, 2), and the engine
  ends with two assets, two bitmaps and the duration 13700 computed for three, where
  the callback gives 10500 for two. The scene list then ends at 10500 and a frame at
  12000 throws. The first render and a render on which the bitmap count changes do
  compute the duration of their counts (13700 for three assets).
\<close>

theorem stale_duration_held:
  "heldAfter [(0, 0), (0, 3), (2, 3), (2, 2), (2, 2)] staleProject
   \<and> length (assets staleProject) = 2
   \<and> length (bitmaps staleProject) = 2
   \<and> totalMs staleProject = 13700
   \<and> totalDurationMs 2 2 = 10500
   \<and> renderAll None [(3, 3)] = Some \<lparr>memo_dep = 3, memo_value = 13700\<rparr>
   \<and> renderAll None [(0, 0), (0, 3), (2, 3)] = Some \<lparr>memo_dep = 2, memo_value = 13700\<rparr>
   \<and> drawFrame staleProject (freshCtx 1280 720) 12000
       = Inl (TypeError, background (freshCtx 1280 720))"
proof -
  have "List.find (inScene (frameTime staleProject 12000)) (scenes (length (bitmaps staleProject))) = None"
    unfolding frameTime_def
    by (rule lookup_fail[of _ _ _ 3])
       (simp_all add: staleProject_fields total_2 scenesEnd_def introMs_def perImageMs_def priceMs_def outroMs_def)
  then have d: "drawFrame staleProject (freshCtx 1280 720) 12000
       = Inl (TypeError, background (freshCtx 1280 720))" by (rule drawFrame_missing)
  show ?thesis
    by (simp add: d heldAfter_def staleProject_fields useMemoTotal_def total_2
        totalDurationMs_def Let_def introMs_def perImageMs_def priceMs_def outroMs_def)
qed

lemma demo_heldAfter: "heldAfter [(0, 0), (0, 2), (2, 2)] (demo 2 Cinematic)"
  by (simp add: heldAfter_def demo_def useMemoTotal_def)

text \<open>
  C2, as amended. For every number \<open>n\<close> of decoded bitmaps the scene list is laid end to
  end from 0 to \<open>introMs + n * perImageMs + priceMs + outroMs\<close> with no gap, no overlap
  and no empty scene, so every time in that interval lies in exactly one scene and no
  other time lies in any; it holds exactly \<open>n\<close> image scenes, whose indices are
  \<open>0, ..., n - 1\<close> in this order. The duration the engine holds is the one the callback
  gives for its bitmap count and the asset count \<open>a\<close> of the render that last ran the
  memo. The list partitions \<open>[0, totalDurationMs)\<close> exactly when the duration held is
  the end of the list: it is when there is at least one bitmap and \<open>a\<close> does not exceed
  the number of bitmaps; when \<open>a\<close> exceeds it, the list ends before the duration. With
  no bitmap and \<open>a = 0\<close> the duration is 1500 while the list still holds the three
  scenes intro \<open>[0, 1500)\<close>, price \<open>[1500, 3300)\<close> and outro \<open>[3300, 4100)\<close>: every
  time in \<open>[0, totalDurationMs)\<close> is found in the intro scene.
\<close>

theorem scenes_partition:
  "chain 0 (scenes n) (scenesEnd n)
   \<and> (\<forall>t. length (filter (inScene t) (scenes n)) = (if 0 \<le> t \<and> t < scenesEnd n then 1 else 0))
   \<and> (0 < n \<longrightarrow> scenesEnd n = totalDurationMs n n \<and> chain 0 (scenes n) (totalDurationMs n n))
   \<and> map idx (filter (\<lambda>s. kind s = Image) (scenes n)) = map Some [0..<n]
   \<and> length (filter (\<lambda>s. kind s = Image) (scenes n)) = n
   \<and> map kind (scenes 0) = [Intro, Price, Outro]
   \<and> (\<forall>t. 0 \<le> t \<and> t < totalDurationMs 0 0 \<longrightarrow>
         List.find (inScene t) (scenes 0) =
           Some \<lparr>kind = Intro, idx = None, startMs = 0, endMs = 1500\<rparr>)
   \<and> (heldAfter rs cm \<longrightarrow>
         totalMs cm = totalDurationMs (length (bitmaps cm)) (usedCount None 0 rs))
   \<and> (chain 0 (scenes (length (bitmaps cm))) (totalMs cm)
         \<longleftrightarrow> totalMs cm = scenesEnd (length (bitmaps cm)))
   \<and> (totalMs cm = totalDurationMs (length (bitmaps cm)) a \<and> a \<le> length (bitmaps cm)
        \<and> 0 < length (bitmaps cm) \<longrightarrow>
         chain 0 (scenes (length (bitmaps cm))) (totalMs cm))
   \<and> (totalMs cm = totalDurationMs (length (bitmaps cm)) a \<and> length (bitmaps cm) < a \<longrightarrow>
         scenesEnd (length (bitmaps cm)) < totalMs cm
         \<and> \<not> chain 0 (scenes (length (bitmaps cm))) (totalMs cm))
   \<and> (totalMs cm = totalDurationMs (length (bitmaps cm)) a \<and> length (bitmaps cm) = 0 \<and> a = 0 \<longrightarrow>
         totalMs cm = 1500
         \<and> \<not> chain 0 (scenes (length (bitmaps cm))) (totalMs cm)
         \<and> (\<forall>t. 0 \<le> t \<and> t < totalMs cm \<longrightarrow>
               List.find (inScene t) (scenes (length (bitmaps cm))) =
                 Some \<lparr>kind = Intro, idx = None, startMs = 0, endMs = 1500\<rparr>))"
proof (intro conjI allI impI)
  show c: "chain 0 (scenes n) (scenesEnd n)" by (rule chain_scenes)
  show "length (filter (inScene t) (scenes n)) = (if 0 \<le> t \<and> t < scenesEnd n then 1 else 0)" for t
    by (rule chain_count[OF chain_scenes])
  show "scenesEnd n = totalDurationMs n n" if "0 < n" using that by (rule end_is_total)
  show "chain 0 (scenes n) (totalDurationMs n n)" if "0 < n"
    using c end_is_total[OF that] by simp
  show i: "map idx (filter (\<lambda>s. kind s = Image) (scenes n)) = map Some [0..<n]"
    by (rule image_indices)
  have "length (map idx (filter (\<lambda>s. kind s = Image) (scenes n))) = length (map Some [0..<n])"
    by (simp only: i)
  then show "length (filter (\<lambda>s. kind s = Image) (scenes n)) = n" by simp
  show "map kind (scenes 0) = [Intro, Price, Outro]" by (simp add: scenes_0)
  show "List.find (inScene t) (scenes 0) =
           Some \<lparr>kind = Intro, idx = None, startMs = 0, endMs = 1500\<rparr>"
    if "0 \<le> t \<and> t < totalDurationMs 0 0" for t
    using that by (simp add: scenes_0 total_0 inScene_def)
  show "totalMs cm = totalDurationMs (length (bitmaps cm)) (usedCount None 0 rs)"
    if "heldAfter rs cm"
    using that by (rule heldAfter_total)
  show "chain 0 (scenes (length (bitmaps cm))) (totalMs cm)
         \<longleftrightarrow> totalMs cm = scenesEnd (length (bitmaps cm))"
    by (rule chain_scenes_iff)
  show "chain 0 (scenes (length (bitmaps cm))) (totalMs cm)"
    if "totalMs cm = totalDurationMs (length (bitmaps cm)) a \<and> a \<le> length (bitmaps cm)
        \<and> 0 < length (bitmaps cm)"
    using that total_is_end[of a "length (bitmaps cm)"] by (simp add: chain_scenes_iff)
  show "scenesEnd (length (bitmaps cm)) < totalMs cm"
    if "totalMs cm = totalDurationMs (length (bitmaps cm)) a \<and> length (bitmaps cm) < a"
    using that end_lt_total[of "length (bitmaps cm)" a] by simp
  then show "\<not> chain 0 (scenes (length (bitmaps cm))) (totalMs cm)"
    if "totalMs cm = totalDurationMs (length (bitmaps cm)) a \<and> length (bitmaps cm) < a"
    using that by (simp add: chain_scenes_iff)
  assume z: "totalMs cm = totalDurationMs (length (bitmaps cm)) a \<and> length (bitmaps cm) = 0 \<and> a = 0"
  then show t: "totalMs cm = 1500" by (simp add: total_0)
  from z t show "\<not> chain 0 (scenes (length (bitmaps cm))) (totalMs cm)"
    by (simp add: scenes_0)
  show "List.find (inScene t) (scenes (length (bitmaps cm))) =
          Some \<lparr>kind = Intro, idx = None, startMs = 0, endMs = 1500\<rparr>"
    if "0 \<le> t \<and> t < totalMs cm" for t
  proof -
    from that t have "0 \<le> t \<and> t < 1500" by simp
    moreover from z have "length (bitmaps cm) = 0" by simp
    ultimately show ?thesis by (simp add: scenes_0 inScene_def)
  qed
qed

theorem scenes_partition_witness:
  "chain 0 (scenes 2) (totalDurationMs 2 2)
   \<and> length (filter (inScene 5000) (scenes 2)) = 1
   \<and> List.find (inScene 100) (scenes 0) =
        Some \<lparr>kind = Intro, idx = None, startMs = 0, endMs = 1500\<rparr>
   \<and> totalMs (demo 2 Cinematic) = totalDurationMs 2 (usedCount None 0 [(0, 0), (0, 2), (2, 2)])
   \<and> chain 0 (scenes (length (bitmaps (demo 2 Cinematic)))) (totalMs (demo 2 Cinematic))
   \<and> \<not> chain 0 (scenes (length (bitmaps staleProject))) (totalMs staleProject)
   \<and> List.find (inScene 100) (scenes (length (bitmaps (demo 0 Modern)))) =
        Some \<lparr>kind = Intro, idx = None, startMs = 0, endMs = 1500\<rparr>"
proof -
  have h1: "(0::nat) < 2" by simp
  have h2: "(0::real) \<le> 100 \<and> 100 < totalDurationMs 0 0" by (simp add: total_0)
  have h3: "(0::real) \<le> 5000 \<and> 5000 < scenesEnd 2"
    by (simp add: scenesEnd_def introMs_def perImageMs_def priceMs_def outroMs_def)
  from scenes_partition[of 2] h1 h2 h3
  have a: "chain 0 (scenes 2) (totalDurationMs 2 2)
   \<and> length (filter (inScene 5000) (scenes 2)) = 1
   \<and> List.find (inScene 100) (scenes 0) =
        Some \<lparr>kind = Intro, idx = None, startMs = 0, endMs = 1500\<rparr>"
    by simp
  have h4: "heldAfter [(0, 0), (0, 2), (2, 2)] (demo 2 Cinematic)" by (rule demo_heldAfter)
  have h5: "totalMs (demo 2 Cinematic) = totalDurationMs (length (bitmaps (demo 2 Cinematic))) 2
            \<and> 2 \<le> length (bitmaps (demo 2 Cinematic)) \<and> 0 < length (bitmaps (demo 2 Cinematic))"
    by (simp add: demo_fields)
  have h6: "totalMs staleProject = totalDurationMs (length (bitmaps staleProject)) 3
            \<and> length (bitmaps staleProject) < 3"
    by (simp add: staleProject_fields total_2)
  have h7: "totalMs (demo 0 Modern) = totalDurationMs (length (bitmaps (demo 0 Modern))) 0
            \<and> length (bitmaps (demo 0 Modern)) = 0 \<and> (0::nat) = 0"
    by (simp add: demo_fields)
  from scenes_partition[of _ "[(0, 0), (0, 2), (2, 2)]" "demo 2 Cinematic" 2] h4 h5
  have b: "totalMs (demo 2 Cinematic) =
             totalDurationMs (length (bitmaps (demo 2 Cinematic)))
               (usedCount None 0 [(0, 0), (0, 2), (2, 2)])"
    and c: "chain 0 (scenes (length (bitmaps (demo 2 Cinematic)))) (totalMs (demo 2 Cinematic))"
    by blast+
  from scenes_partition[of _ _ staleProject 3] h6
  have d: "\<not> chain 0 (scenes (length (bitmaps staleProject))) (totalMs staleProject)" by blast
  from scenes_partition[of _ _ "demo 0 Modern" 0] h7
  have e: "totalMs (demo 0 Modern) = 1500 \<and> (\<forall>t. 0 \<le> t \<and> t < totalMs (demo 0 Modern) \<longrightarrow>
               List.find (inScene t) (scenes (length (bitmaps (demo 0 Modern)))) =
                 Some \<lparr>kind = Intro, idx = None, startMs = 0, endMs = 1500\<rparr>)"
    by blast
  then have f: "List.find (inScene 100) (scenes (length (bitmaps (demo 0 Modern)))) =
        Some \<lparr>kind = Intro, idx = None, startMs = 0, endMs = 1500\<rparr>"
    by simp
  have l: "length (bitmaps (demo 2 Cinematic)) = 2" by (simp add: demo_fields)
  from a b c d f show ?thesis unfolding l by blast
qed

theorem empty_project_scene_list:
  "\<not> chain 0 (scenes 0) (totalDurationMs 0 0)
   \<and> length (scenes 0) = 3
   \<and> endMs (last (scenes 0)) = 4100
   \<and> totalDurationMs 0 0 = 1500
   \<and> heldAfter [(0, 0)] (demo 0 Cinematic)
   \<and> totalMs (demo 0 Cinematic) = 1500
   \<and> \<not> chain 0 (scenes (length (bitmaps (demo 0 Cinematic)))) (totalMs (demo 0 Cinematic))
   \<and> map kind (scenes (length (bitmaps (demo 0 Cinematic)))) = [Intro, Price, Outro]
   \<and> heldAfter [(0, 0), (0, 3), (2, 3)] partlyDecoded
   \<and> length (assets partlyDecoded) = 3
   \<and> totalMs partlyDecoded = 13700
   \<and> length (filter (\<lambda>s. kind s = Image) (scenes (length (bitmaps partlyDecoded)))) = 2
   \<and> \<not> chain 0 (scenes (length (bitmaps partlyDecoded))) (totalMs partlyDecoded)"
proof -
  have p: "length (bitmaps partlyDecoded) = 2" "length (assets partlyDecoded) = 3"
    "totalMs partlyDecoded = 13700"
    by (simp_all add: partlyDecoded_def demo_def)
  have h: "heldAfter [(0, 0), (0, 3), (2, 3)] partlyDecoded"
    by (simp add: heldAfter_def p useMemoTotal_def total_2)
  have i: "length (filter (\<lambda>s. kind s = Image) (scenes (length (bitmaps partlyDecoded)))) = 2"
    using image_indices[of 2, THEN arg_cong, of length] by (simp add: p)
  have e: "scenesEnd 2 = 10500"
    by (simp add: scenesEnd_def introMs_def perImageMs_def priceMs_def outroMs_def)
  have c: "\<not> chain 0 (scenes (length (bitmaps partlyDecoded))) (totalMs partlyDecoded)"
    by (simp add: chain_scenes_iff p e)
  have z: "\<not> chain 0 (scenes 0) (totalDurationMs 0 0)
   \<and> length (scenes 0) = 3
   \<and> endMs (last (scenes 0)) = 4100
   \<and> totalDurationMs 0 0 = 1500
   \<and> heldAfter [(0, 0)] (demo 0 Cinematic)
   \<and> totalMs (demo 0 Cinematic) = 1500
   \<and> \<not> chain 0 (scenes (length (bitmaps (demo 0 Cinematic)))) (totalMs (demo 0 Cinematic))
   \<and> map kind (scenes (length (bitmaps (demo 0 Cinematic)))) = [Intro, Price, Outro]"
    by (simp add: scenes_0 total_0 heldAfter_def demo_def useMemoTotal_def)
  from z h p(2,3) i c show ?thesis by blast
qed

lemma undecoded_heldAfter: "heldAfter [(0, 0), (0, 2), (2, 2), (2, 3), (0, 3)] undecoded"
  by (simp add: heldAfter_def undecoded_def demo_def useMemoTotal_def total_2
      totalDurationMs_def Let_def introMs_def perImageMs_def priceMs_def outroMs_def)

lemma jsRem_range:
  assumes "0 \<le> a" and "0 < b"
  shows "0 \<le> jsRem a b \<and> jsRem a b < b"
proof -
  have q: "0 \<le> a / b" using assms by simp
  have lo: "of_int \<lfloor>a / b\<rfloor> * b \<le> a" using assms(2) by (rule floor_divide_lower)
  have hi: "a < (of_int \<lfloor>a / b\<rfloor> + 1) * b" using assms(2) by (rule floor_divide_upper)
  from q have "jsRem a b = a - b * of_int \<lfloor>a / b\<rfloor>" by (simp add: jsRem_def)
  with lo hi show ?thesis by (simp add: algebra_simps)
qed

lemma previewLoop_renders:
  assumes "rendersAll cm" and "case previewStart of None \<Rightarrow> True | Some s \<Rightarrow> s \<le> ts"
  shows "\<exists>c'. snd (previewLoop cm previewStart c ts) = Inr c'"
proof -
  let ?start = "case previewStart of None \<Rightarrow> ts | Some s \<Rightarrow> s"
  have "0 \<le> ts - ?start" using assms(2) by (cases previewStart) auto
  moreover have "0 < max (totalMs cm) 1" by simp
  ultimately have "0 \<le> jsRem (ts - ?start) (max (totalMs cm) 1)"
    using jsRem_range by blast
  from drawFrame_ok[OF assms(1) this, of c] show ?thesis
    by (auto simp: previewLoop_def Let_def)
qed

section \<open>What the draws put on the surface\<close>

lemmas host_ops = put_def clearRect_def fillRect_def drawImage_def fillText_def fill_def
  setAlpha_def setFill_def setFilter_def setFont_def setTextAlign_def setTextBaseline_def
  beginPath_def addSeg_def

lemma drawIntro_surface:
  "set (surface (drawIntro cm bmp title subtitle prog sty c))
     \<subseteq> set (surface c) \<union> {p. plain (ctx_filter c) p}"
  "ctx_filter (drawIntro cm bmp title subtitle prog sty c) = ctx_filter c"
  "canvas_width (drawIntro cm bmp title subtitle prog sty c) = canvas_width c"
  "canvas_height (drawIntro cm bmp title subtitle prog sty c) = canvas_height c"
  by (auto simp: drawIntro_def host_ops Let_def plain_def isVignette_def isLetterboxBar_def
      split: option.splits)

lemma drawImageScene_surface:
  "set (surface (drawImageScene cm bmp caption i prog sty c))
     \<subseteq> set (surface c) \<union> {p. plain (ctx_filter c) p}"
  "ctx_filter (drawImageScene cm bmp caption i prog sty c) = ctx_filter c"
  "canvas_width (drawImageScene cm bmp caption i prog sty c) = canvas_width c"
  "canvas_height (drawImageScene cm bmp caption i prog sty c) = canvas_height c"
  by (auto simp: drawImageScene_def host_ops Let_def plain_def isVignette_def isLetterboxBar_def
      split: option.splits)

lemma drawPrice_surface:
  "set (surface (drawPrice p ct prog sty c)) \<subseteq> set (surface c) \<union> {p. plain (ctx_filter c) p}"
  "ctx_filter (drawPrice p ct prog sty c) = ctx_filter c"
  "canvas_width (drawPrice p ct prog sty c) = canvas_width c"
  "canvas_height (drawPrice p ct prog sty c) = canvas_height c"
  by (auto simp: drawPrice_def roundRect_def host_ops Let_def plain_def isVignette_def
      isLetterboxBar_def)

lemma drawScene_surface:
  "set (surface (drawScene cm sc prog c)) \<subseteq> set (surface c) \<union> {p. plain (ctx_filter c) p}"
  "ctx_filter (drawScene cm sc prog c) = ctx_filter c"
  "canvas_width (drawScene cm sc prog c) = canvas_width c"
  "canvas_height (drawScene cm sc prog c) = canvas_height c"
  using drawIntro_surface drawImageScene_surface drawPrice_surface
  by (auto simp: drawScene_def host_ops Let_def plain_def isVignette_def isLetterboxBar_def
      split: option.splits)

lemma background_surface:
  "ctx_filter c = f \<Longrightarrow> set (surface (background c)) \<subseteq> {p. plain f p}"
  "ctx_filter (background c) = ctx_filter c"
  by (auto simp: background_def host_ops Let_def plain_def isVignette_def isLetterboxBar_def)

lemma background_nobars: "set (surface (background c)) \<subseteq> {p. \<not> isLetterboxBar p}"
  by (auto simp: background_def host_ops Let_def isLetterboxBar_def)

lemma drawVignette_surface:
  "set (surface (drawVignette c)) \<subseteq> set (surface c) \<union> {p. \<not> isLetterboxBar p}"
  by (auto simp: drawVignette_def host_ops Let_def isLetterboxBar_def)

lemma draw_dims:
  "canvas_width (background c) = canvas_width c"
  "canvas_height (background c) = canvas_height c"
  "canvas_width (drawVignette c) = canvas_width c"
  "canvas_height (drawVignette c) = canvas_height c"
  "canvas_width (setFilter f c) = canvas_width c"
  "canvas_height (setFilter f c) = canvas_height c"
  by (simp_all add: background_def drawVignette_def host_ops Let_def)

lemma paintScene_minimal:
  "style cm = Minimal \<Longrightarrow>
   paintScene cm sc time cb =
     setFilter ''none''
       (drawScene cm sc ((time - startMs sc) / (endMs sc - startMs sc)) (setFilter ''none'' cb))"
  by (simp add: paintScene_def Let_def)

lemma paintScene_plain:
  assumes "style cm = Minimal" and "set (surface cb) \<subseteq> {p. plain ''none'' p}"
  shows "set (surface (paintScene cm sc time cb)) \<subseteq> {p. plain ''none'' p}"
proof -
  let ?c1 = "setFilter ''none'' cb"
  let ?prog = "(time - startMs sc) / (endMs sc - startMs sc)"
  have f: "ctx_filter ?c1 = ''none''" and s: "surface ?c1 = surface cb"
    by (simp_all add: setFilter_def)
  have "set (surface (drawScene cm sc ?prog ?c1))
          \<subseteq> set (surface ?c1) \<union> {p. plain (ctx_filter ?c1) p}"
    by (rule drawScene_surface(1))
  with assms(2) f s have "set (surface (drawScene cm sc ?prog ?c1)) \<subseteq> {p. plain ''none'' p}"
    by auto
  then show ?thesis using assms(1) by (simp add: paintScene_def Let_def setFilter_def)
qed

lemma minimal_rendered:
  assumes "style cm = Minimal" and "ctx_filter c = ''none''"
  shows "set (rendered (drawFrame cm c tMs)) \<subseteq> {p. plain ''none'' p}"
proof -
  have b: "set (surface (background c)) \<subseteq> {p. plain ''none'' p}"
    using background_surface(1)[OF assms(2)] .
  show ?thesis
  proof (cases "List.find (inScene (frameTime cm tMs)) (scenes (length (bitmaps cm)))")
    case None
    then show ?thesis using b by (simp add: drawFrame_missing rendered_def ctxOf_def)
  next
    case (Some sc)
    then show ?thesis using paintScene_plain[OF assms(1) b]
      by (simp add: drawFrame_found rendered_def ctxOf_def)
  qed
qed

lemma drawScene_nobars:
  "set (surface c) \<subseteq> {p. \<not> isLetterboxBar p} \<Longrightarrow>
   set (surface (drawScene cm sc prog c)) \<subseteq> {p. \<not> isLetterboxBar p}"
  using drawScene_surface(1)[of cm sc prog c] by (auto simp: plain_def)

lemma paintScene_nobars:
  assumes "style cm \<noteq> Cinematic" and "set (surface cb) \<subseteq> {p. \<not> isLetterboxBar p}"
  shows "set (surface (paintScene cm sc time cb)) \<subseteq> {p. \<not> isLetterboxBar p}"
proof -
  let ?c1 = "setFilter (if style cm = Minimal then ''none'' else colorGrade) cb"
  let ?prog = "(time - startMs sc) / (endMs sc - startMs sc)"
  have "surface ?c1 = surface cb" by (simp add: setFilter_def)
  with assms(2) have 1: "set (surface (drawScene cm sc ?prog ?c1)) \<subseteq> {p. \<not> isLetterboxBar p}"
    using drawScene_nobars[of ?c1 cm sc ?prog] by simp
  then have 2: "set (surface (drawVignette (drawScene cm sc ?prog ?c1)))
                  \<subseteq> {p. \<not> isLetterboxBar p}"
    using drawVignette_surface[of "drawScene cm sc ?prog ?c1"] by auto
  show ?thesis using assms(1) 1 2
    by (cases "style cm = Minimal") (simp_all add: paintScene_def Let_def setFilter_def)
qed

lemma bars_only_cinematic:
  assumes "list_ex isLetterboxBar (rendered (drawFrame cm c tMs))"
  shows "style cm = Cinematic"
proof (rule ccontr)
  assume n: "style cm \<noteq> Cinematic"
  have "set (rendered (drawFrame cm c tMs)) \<subseteq> {p. \<not> isLetterboxBar p}"
  proof (cases "List.find (inScene (frameTime cm tMs)) (scenes (length (bitmaps cm)))")
    case None
    then show ?thesis using background_nobars
      by (simp add: drawFrame_missing rendered_def ctxOf_def)
  next
    case (Some sc)
    then show ?thesis using paintScene_nobars[OF n background_nobars]
      by (simp add: drawFrame_found rendered_def ctxOf_def)
  qed
  with assms show False by (auto simp: list_ex_iff)
qed

lemma round_16_9: "math_round (25600 / 47) = 545"
  by (simp add: math_round_def)

lemma round_other: "math_round (21600 / 47) = 460"
  by (simp add: math_round_def)

lemma letterbox_pad:
  "(canvas_width c, canvas_height c) = layout r \<Longrightarrow>
   0 < max 0 ((canvas_height c
                - min (canvas_height c) (of_int (math_round (canvas_width c / 2.35)))) / 2)"
  by (cases r) (auto simp: layout_def round_16_9 round_other)

lemma drawLetterbox_bars:
  "(canvas_width c, canvas_height c) = layout r \<Longrightarrow>
   list_ex isLetterboxBar (surface (drawLetterbox c))"
  using letterbox_pad[of c r]
  by (auto simp: drawLetterbox_def Let_def host_ops isLetterboxBar_def layout_def
      split: if_splits)

lemma cinematic_bars:
  assumes "style cm = Cinematic" and "(canvas_width c, canvas_height c) = layout r"
    and "List.find (inScene (frameTime cm tMs)) (scenes (length (bitmaps cm))) = Some sc"
  shows "list_ex isLetterboxBar (rendered (drawFrame cm c tMs))"
proof -
  let ?c3 = "drawVignette
               (drawScene cm sc ((frameTime cm tMs - startMs sc) / (endMs sc - startMs sc))
                  (setFilter colorGrade (background c)))"
  have "(canvas_width ?c3, canvas_height ?c3) = layout r"
    using assms(2) by (simp add: draw_dims drawScene_surface)
  then have "list_ex isLetterboxBar (surface (drawLetterbox ?c3))"
    by (rule drawLetterbox_bars)
  then show ?thesis using assms(1,3)
    by (simp add: drawFrame_found rendered_def ctxOf_def paintScene_def Let_def setFilter_def)
qed

text \<open>
  C5. When the style is minimal, painting a scene is the per-scene draw alone, under
  the filter \<^verbatim>\<open>none\<close>; and whatever the timestamp, the frame drawn on a context whose
  filter is \<^verbatim>\<open>none\<close> on entry (as on a fresh context and after every call that returned)
  holds no vignette fill, no letterbox bar and no paint under a colour-grade filter.
  Letterbox bars are on the surface only when the style is cinematic, and they are
  there for a cinematic frame on each of the three layouts whenever the time has a scene.
\<close>

theorem minimal_style_unmodified:
  "(style cm = Minimal \<longrightarrow>
      paintScene cm sc time cb =
        setFilter ''none''
          (drawScene cm sc ((time - startMs sc) / (endMs sc - startMs sc))
             (setFilter ''none'' cb)))
   \<and> (style cm = Minimal \<and> ctx_filter c = ''none'' \<longrightarrow>
        list_all (\<lambda>p. \<not> isVignette p \<and> \<not> isLetterboxBar p \<and> \<not> isGraded p)
          (rendered (drawFrame cm c tMs)))
   \<and> (list_ex isLetterboxBar (rendered (drawFrame cm c tMs)) \<longrightarrow> style cm = Cinematic)
   \<and> (style cm = Cinematic \<and> (canvas_width c, canvas_height c) = layout r \<and> 0 \<le> tMs
        \<and> rendersAll cm \<longrightarrow>
        list_ex isLetterboxBar (rendered (drawFrame cm c tMs)))"
proof (intro conjI impI)
  show "paintScene cm sc time cb =
        setFilter ''none''
          (drawScene cm sc ((time - startMs sc) / (endMs sc - startMs sc))
             (setFilter ''none'' cb))"
    if "style cm = Minimal"
    using that by (rule paintScene_minimal)
  show "list_all (\<lambda>p. \<not> isVignette p \<and> \<not> isLetterboxBar p \<and> \<not> isGraded p)
          (rendered (drawFrame cm c tMs))"
    if "style cm = Minimal \<and> ctx_filter c = ''none''"
    using that minimal_rendered[of cm c tMs]
    by (auto simp: list_all_iff plain_def isGraded_def)
  show "style cm = Cinematic" if "list_ex isLetterboxBar (rendered (drawFrame cm c tMs))"
    using that by (rule bars_only_cinematic)
  show "list_ex isLetterboxBar (rendered (drawFrame cm c tMs))"
    if h: "style cm = Cinematic \<and> (canvas_width c, canvas_height c) = layout r \<and> 0 \<le> tMs
        \<and> rendersAll cm"
  proof -
    from h have a: "totalMs cm = totalDurationMs (length (bitmaps cm)) (length (bitmaps cm))"
      by (simp add: rendersAll_def)
    from h lookup_ok[OF _ a order_refl, of tMs]
    obtain sc' where
      "List.find (inScene (frameTime cm tMs)) (scenes (length (bitmaps cm))) = Some sc'"
      by (auto simp: frameTime_def)
    with h show ?thesis using cinematic_bars by blast
  qed
qed

theorem minimal_style_unmodified_witness:
  "list_all (\<lambda>p. \<not> isVignette p \<and> \<not> isLetterboxBar p \<and> \<not> isGraded p)
     (rendered (drawFrame (demo 1 Minimal) (freshCtx 1280 720) 2000))
   \<and> list_ex isLetterboxBar (rendered (drawFrame (demo 1 Cinematic) (freshCtx 1280 720) 2000))
   \<and> style (demo 1 Cinematic) = Cinematic"
proof -
  have h1: "style (demo 1 Minimal) = Minimal \<and> ctx_filter (freshCtx 1280 720) = ''none''"
    by (simp add: demo_fields freshCtx_def)
  have h2: "style (demo 1 Cinematic) = Cinematic
            \<and> (canvas_width (freshCtx 1280 720), canvas_height (freshCtx 1280 720)) = layout R16_9
            \<and> (0::real) \<le> 2000 \<and> rendersAll (demo 1 Cinematic)"
    by (simp add: demo_fields freshCtx_def layout_def demo_rendersAll)
  from minimal_style_unmodified[of "demo 1 Minimal" _ _ _ "freshCtx 1280 720" 2000] h1
  have a: "list_all (\<lambda>p. \<not> isVignette p \<and> \<not> isLetterboxBar p \<and> \<not> isGraded p)
     (rendered (drawFrame (demo 1 Minimal) (freshCtx 1280 720) 2000))"
    by blast
  from minimal_style_unmodified[of "demo 1 Cinematic" _ _ _ "freshCtx 1280 720" 2000 R16_9] h2
  have b: "list_ex isLetterboxBar (rendered (drawFrame (demo 1 Cinematic) (freshCtx 1280 720) 2000))"
    by blast
  from minimal_style_unmodified[of "demo 1 Cinematic" _ _ _ "freshCtx 1280 720" 2000] b
  have c: "style (demo 1 Cinematic) = Cinematic" by blast
  from a b c show ?thesis by blast
qed

section \<open>The hidden inputs of a frame\<close>

lemma obs_forget: "obs c1 = obs c2 \<Longrightarrow> forget c1 = forget c2"
  by (cases c1, cases c2) (simp add: obs_def forget_def)

lemma fade_le: "9 * min (1::real) x \<le> 10"
  by (simp add: min_def)

lemma forget_drawIntro:
  "obs (drawIntro cm bmp t s prog sty c) = obs (drawIntro cm bmp t s prog sty (forget c))"
  by (simp add: obs_def forget_def drawIntro_def host_ops Let_def split: option.splits)

lemma forget_drawImageScene:
  "obs (drawImageScene cm bmp cap i prog sty c)
     = obs (drawImageScene cm bmp cap i prog sty (forget c))"
  by (simp add: obs_def forget_def drawImageScene_def host_ops Let_def split: option.splits)

lemma forget_drawPrice:
  "obs (drawPrice p ct prog sty c) = obs (drawPrice p ct prog sty (forget c))"
  by (simp add: obs_def forget_def drawPrice_def roundRect_def host_ops Let_def fade_le)

lemma forget_drawScene:
  "obs (drawScene cm sc prog c) = obs (drawScene cm sc prog (forget c))"
proof -
  consider "kind sc = Intro" | "kind sc = Image" | "kind sc = Price" | "kind sc = Outro"
    by (cases "kind sc") auto
  then show ?thesis
  proof cases
    case 1
    then show ?thesis using forget_drawIntro by (simp add: drawScene_def)
  next
    case 2
    then show ?thesis using forget_drawImageScene
      by (cases "idx sc") (simp_all add: drawScene_def obs_def forget_def)
  next
    case 3
    then show ?thesis using forget_drawPrice by (simp add: drawScene_def)
  next
    case 4
    then show ?thesis by (simp add: drawScene_def obs_def forget_def host_ops Let_def)
  qed
qed

lemma forget_setFilter: "obs (setFilter f c) = obs (setFilter f (forget c))"
  by (simp add: obs_def forget_def setFilter_def)

lemma forget_drawVignette: "obs (drawVignette c) = obs (drawVignette (forget c))"
  by (simp add: obs_def forget_def drawVignette_def host_ops Let_def)

lemma forget_drawLetterbox: "obs (drawLetterbox c) = obs (drawLetterbox (forget c))"
  by (simp add: obs_def forget_def drawLetterbox_def host_ops Let_def)

lemma obs_cong:
  assumes "\<And>c. obs (f c) = obs (f (forget c))" and "obs c1 = obs c2"
  shows "obs (f c1) = obs (f c2)"
proof -
  have "obs (f c1) = obs (f (forget c1))" by (rule assms(1))
  also have "\<dots> = obs (f (forget c2))" using obs_forget[OF assms(2)] by simp
  also have "\<dots> = obs (f c2)" by (rule assms(1)[symmetric])
  finally show ?thesis .
qed

lemma obs_paintScene:
  assumes "obs c1 = obs c2"
  shows "obs (paintScene cm sc time c1) = obs (paintScene cm sc time c2)"
proof -
  let ?prog = "(time - startMs sc) / (endMs sc - startMs sc)"
  have A: "obs (setFilter f0 c1) = obs (setFilter f0 c2)" for f0
    by (rule obs_cong[of "setFilter f0" c1 c2, OF forget_setFilter assms])
  have B: "obs (drawScene cm sc ?prog (setFilter f0 c1))
             = obs (drawScene cm sc ?prog (setFilter f0 c2))" for f0
    by (rule obs_cong[of "drawScene cm sc ?prog", OF forget_drawScene A])
  have C: "obs (drawVignette (drawScene cm sc ?prog (setFilter f0 c1))) =
           obs (drawVignette (drawScene cm sc ?prog (setFilter f0 c2)))" for f0
    by (rule obs_cong[of drawVignette, OF forget_drawVignette B])
  have D: "obs (drawLetterbox (drawVignette (drawScene cm sc ?prog (setFilter f0 c1)))) =
           obs (drawLetterbox (drawVignette (drawScene cm sc ?prog (setFilter f0 c2))))" for f0
    by (rule obs_cong[of drawLetterbox, OF forget_drawLetterbox C])
  have E: "obs (setFilter ''none'' x1) = obs (setFilter ''none'' x2)"
    if "obs x1 = obs x2" for x1 x2
    by (rule obs_cong[of "setFilter ''none''", OF forget_setFilter that])
  show ?thesis
  proof (cases "style cm")
    case Cinematic
    then show ?thesis using E[OF D] by (simp add: paintScene_def Let_def)
  next
    case Modern
    then show ?thesis using E[OF C] by (simp add: paintScene_def Let_def)
  next
    case Minimal
    then show ?thesis using E[OF B] by (simp add: paintScene_def Let_def)
  qed
qed

lemma background_entry:
  assumes "canvas_width c1 = canvas_width c2" "canvas_height c1 = canvas_height c2"
    "globalAlpha c1 = globalAlpha c2" "ctx_filter c1 = ctx_filter c2"
  shows "obs (background c1) = obs (background c2)"
  using assms by (simp add: obs_def background_def host_ops Let_def)

text \<open>
  What a call paints depends on the context it is given only through the size of the
  canvas, \<^verbatim>\<open>globalAlpha\<close> and the filter.
\<close>

lemma drawFrame_entry_state:
  assumes "canvas_width c1 = canvas_width c2" "canvas_height c1 = canvas_height c2"
    "globalAlpha c1 = globalAlpha c2" "ctx_filter c1 = ctx_filter c2"
  shows "rendered (drawFrame cm c1 tMs) = rendered (drawFrame cm c2 tMs)"
proof -
  have b: "obs (background c1) = obs (background c2)" using assms by (rule background_entry)
  have "obs (ctxOf (drawFrame cm c1 tMs)) = obs (ctxOf (drawFrame cm c2 tMs))"
  proof (cases "List.find (inScene (frameTime cm tMs)) (scenes (length (bitmaps cm)))")
    case None
    then show ?thesis using b by (simp add: drawFrame_missing ctxOf_def)
  next
    case (Some sc)
    then show ?thesis using obs_paintScene[OF b] by (simp add: drawFrame_found ctxOf_def)
  qed
  then show ?thesis by (simp add: rendered_def obs_def)
qed

text \<open>A call that returns leaves the filter at \<^verbatim>\<open>none\<close>; one that throws leaves it as it was.\<close>

lemma drawFrame_filter_after:
  "ctx_filter (ctxOf (drawFrame cm c tMs)) =
     (case drawFrame cm c tMs of Inl _ \<Rightarrow> ctx_filter c | Inr _ \<Rightarrow> ''none'')"
  by (cases "List.find (inScene (frameTime cm tMs)) (scenes (length (bitmaps cm)))")
     (simp_all add: drawFrame_found drawFrame_missing ctxOf_def background_surface
        paintScene_def Let_def setFilter_def)

section \<open>The alpha a frame leaves behind\<close>

lemma drawIntro_alpha: "globalAlpha (drawIntro cm bmp title subtitle prog sty c) = 1"
  by (simp add: drawIntro_def host_ops Let_def split: option.splits)

lemma outro_alpha: "kind sc = Outro \<Longrightarrow> globalAlpha (drawScene cm sc prog c) = 1"
  by (simp add: drawScene_def host_ops Let_def)

lemma drawPrice_alpha:
  "0 \<le> prog \<Longrightarrow> globalAlpha (drawPrice p ct prog sty c) = min 1 (prog * 1.5)"
  by (simp add: drawPrice_def roundRect_def host_ops Let_def min_def)

lemmas price_frame = drawFrame_def demo_def freshCtx_def frameTime_def scenes_1 total_1
  inScene_def Let_def background_def paintScene_def drawScene_def drawPrice_def roundRect_def
  host_ops math_round_def ctxOf_def rendered_def

lemma first_price_frame:
  "map paint_alpha (rendered (drawFrame (demo 1 Minimal) (freshCtx 1280 720) 4700))
     = [1, 1, 0, 0, 0]"
  "globalAlpha (ctxOf (drawFrame (demo 1 Minimal) (freshCtx 1280 720) 4700)) = 0"
  by (simp_all add: price_frame)

lemma second_price_frame:
  "map paint_alpha
     (rendered (drawFrame (demo 1 Minimal)
        (ctxOf (drawFrame (demo 1 Minimal) (freshCtx 1280 720) 4700)) 4700))
     = [0, 0, 0, 0, 0]"
  by (simp add: price_frame)

text \<open>
  C4. The renderer is not a function of the timestamp, the bitmaps, the texts and the
  style alone: \<^verbatim>\<open>drawPrice\<close> leaves \<^verbatim>\<open>globalAlpha\<close> at the fade of the price scene (its
  siblings \<^verbatim>\<open>drawIntro\<close> and the outro branch reset it to 1), and the next call fills its
  background and draws with that alpha. Two calls with the same composer and the same
  timestamp 4700, the start of the price scene of a one-image project: the first, on a
  fresh context, paints the black background and the gradient at alpha 1 and leaves
  alpha 0; the second, on the context the first left, paints everything at alpha 0. The
  two surfaces differ.
\<close>

theorem repeated_price_frame_differs:
  "globalAlpha (ctxOf (drawFrame (demo 1 Minimal) (freshCtx 1280 720) 4700)) = 0
   \<and> map paint_alpha (rendered (drawFrame (demo 1 Minimal) (freshCtx 1280 720) 4700))
       = [1, 1, 0, 0, 0]
   \<and> map paint_alpha
       (rendered (drawFrame (demo 1 Minimal)
          (ctxOf (drawFrame (demo 1 Minimal) (freshCtx 1280 720) 4700)) 4700))
       = [0, 0, 0, 0, 0]
   \<and> rendered (drawFrame (demo 1 Minimal) (freshCtx 1280 720) 4700) \<noteq>
     rendered (drawFrame (demo 1 Minimal)
        (ctxOf (drawFrame (demo 1 Minimal) (freshCtx 1280 720) 4700)) 4700)"
proof (intro conjI)
  show "rendered (drawFrame (demo 1 Minimal) (freshCtx 1280 720) 4700) \<noteq>
     rendered (drawFrame (demo 1 Minimal)
        (ctxOf (drawFrame (demo 1 Minimal) (freshCtx 1280 720) 4700)) 4700)"
  proof
    assume "rendered (drawFrame (demo 1 Minimal) (freshCtx 1280 720) 4700) =
     rendered (drawFrame (demo 1 Minimal)
        (ctxOf (drawFrame (demo 1 Minimal) (freshCtx 1280 720) 4700)) 4700)"
    then have "map paint_alpha (rendered (drawFrame (demo 1 Minimal) (freshCtx 1280 720) 4700)) =
      map paint_alpha (rendered (drawFrame (demo 1 Minimal)
        (ctxOf (drawFrame (demo 1 Minimal) (freshCtx 1280 720) 4700)) 4700))"
      by (rule arg_cong)
    then show False unfolding first_price_frame second_price_frame by simp
  qed
qed (rule first_price_frame second_price_frame)+


section \<open>The selection of the encoding\<close>


lemma select_in_cand: "selectMimeType h \<in> set cand"
  by (simp add: selectMimeType_def cand_def)




lemma select_prefix: "prefix ''video/webm'' (selectMimeType h)"
  using select_in_cand[of h] by (auto simp: cand_def)

lemma select_vp8: "selectMimeType vp8Host = ''video/webm;codecs=vp8,opus''"
  by (simp add: selectMimeType_def cand_def vp8Host_def)

lemma startRecording_resolved:
  "fst (startRecording cm h c s nows) = Resolved m \<Longrightarrow>
     m = selectMimeType h \<and> hasMediaRecorder h \<and> recorderAccepts h m"
  by (auto simp: startRecording_def Let_def
      split: sum.splits prod.splits if_splits loop_status.splits)


section \<open>The frame-stepped loop\<close>

lemma frameTimes_frames: "frameTimes (map Frame ts) = ts"
  by (induction ts) auto

lemma stepLoop_trace:
  assumes "rendersAll cm" and "\<forall>now\<in>set nows. start \<le> now" and "1 \<le> d"
  shows "(case stepLoop cm start d nows c of (st, ev, c') \<Rightarrow> (st, ev)) =
         (case loopTrace start d nows of (st, ts) \<Rightarrow> (st, map Frame ts))"
  using assms(2)
proof (induction nows arbitrary: c)
  case Nil
  show ?case by simp
next
  case (Cons now later)
  have "0 \<le> min (now - start) (d - 1)" using Cons.prems assms(3) by simp
  from drawFrame_ok[OF assms(1) this]
  obtain c' where c': "drawFrame cm c (min (now - start) (d - 1)) = Inr c'" by blast
  have ih: "(case stepLoop cm start d later c' of (st, ev, c'') \<Rightarrow> (st, ev)) =
         (case loopTrace start d later of (st, ts) \<Rightarrow> (st, map Frame ts))"
    using Cons.IH[of c'] Cons.prems by simp
  show ?case using c' ih by (auto simp: Let_def split: prod.splits)
qed

lemma stepLoop_frames:
  "stepLoop cm start d nows c = (st, ev, c') \<Longrightarrow>
   ev = map (\<lambda>now. Frame (clampedAt start d now)) (take (length ev) nows)"
proof (induction nows arbitrary: c st ev c')
  case Nil
  then show ?case by simp
next
  case (Cons now later)
  then show ?case
    by (auto simp: Let_def clampedAt_def split: sum.splits prod.splits if_splits)
qed

lemma stepLoop_finished:
  "stepLoop cm start d nows c = (Finished, ev, c') \<Longrightarrow>
   ev \<noteq> [] \<and> last ev = Frame (d - 1) \<and> length ev \<le> length nows
   \<and> d \<le> nows ! (length ev - 1) - start \<and> (\<forall>i<length ev - 1. nows ! i - start < d)"
proof (induction nows arbitrary: c ev c')
  case Nil
  then show ?case by simp
next
  case (Cons now later)
  show ?case
  proof (cases "drawFrame cm c (min (now - start) (d - 1))")
    case (Inl a)
    with Cons.prems show ?thesis by (auto simp: Let_def split: prod.splits)
  next
    case (Inr c1)
    show ?thesis
    proof (cases "now - start < d")
      case False
      with Inr Cons.prems show ?thesis by (auto simp: Let_def)
    next
      case True
      with Inr Cons.prems obtain ev1 where
        r: "stepLoop cm start d later c1 = (Finished, ev1, c')" and
        e: "ev = Frame (min (now - start) (d - 1)) # ev1"
        by (auto simp: Let_def split: prod.splits)
      from Cons.IH[OF r] have ih: "ev1 \<noteq> []" "last ev1 = Frame (d - 1)"
        "length ev1 \<le> length later" "d \<le> later ! (length ev1 - 1) - start"
        "\<forall>i<length ev1 - 1. later ! i - start < d"
        by auto
      have "\<forall>i<length ev - 1. (now # later) ! i - start < d"
      proof (intro allI impI)
        fix i assume "i < length ev - 1"
        then show "(now # later) ! i - start < d"
          using True ih(5) e by (cases i) auto
      qed
      moreover have "(now # later) ! (length ev - 1) = later ! (length ev1 - 1)"
        using e ih(1) by (cases ev1) auto
      ultimately show ?thesis using e ih by auto
    qed
  qed
qed

lemma stepLoop_live:
  assumes "rendersAll cm" and "\<forall>now\<in>set nows. start \<le> now" and "1 \<le> d"
    and "\<exists>now\<in>set nows. d \<le> now - start"
  shows "fst (stepLoop cm start d nows c) = Finished"
  using assms(2,4)
proof (induction nows arbitrary: c)
  case Nil
  then show ?case by simp
next
  case (Cons now later)
  have "0 \<le> min (now - start) (d - 1)" using Cons.prems assms(3) by simp
  from drawFrame_ok[OF assms(1) this]
  obtain c' where c': "drawFrame cm c (min (now - start) (d - 1)) = Inr c'" by blast
  show ?case
  proof (cases "now - start < d")
    case False
    with c' show ?thesis by (simp add: Let_def)
  next
    case True
    with Cons.prems have "\<exists>n\<in>set later. d \<le> n - start" by auto
    with Cons.IH[of c'] Cons.prems have "fst (stepLoop cm start d later c') = Finished" by simp
    with c' True show ?thesis by (auto simp: Let_def split: prod.splits)
  qed
qed

lemma clamp_mono: "sorted nows \<Longrightarrow> sorted (map (clampedAt start d) nows)"
  by (induction nows) (auto simp: clampedAt_def min_def)

lemma clamp_strict:
  "sorted_wrt (<) nows \<Longrightarrow>
   sorted_wrt (\<lambda>a b. a < b \<or> (a = d - 1 \<and> b = d - 1)) (map (clampedAt start d) nows)"
  by (induction nows) (auto simp: clampedAt_def min_def)

lemma stepLoop_times:
  "frameTimes (fst (snd (stepLoop cm start d nows c))) =
     map (clampedAt start d) (take (length (fst (snd (stepLoop cm start d nows c)))) nows)"
proof -
  obtain st ev c' where r: "stepLoop cm start d nows c = (st, ev, c')"
    by (cases "stepLoop cm start d nows c") auto
  from stepLoop_frames[OF r]
  have "ev = map Frame (map (clampedAt start d) (take (length ev) nows))" by (simp add: comp_def)
  then have "frameTimes ev = map (clampedAt start d) (take (length ev) nows)"
    using frameTimes_frames by metis
  with r show ?thesis by simp
qed

lemma startRecording_events:
  assumes "fst (startRecording cm h c0 start nows) = Resolved m"
  shows "\<exists>ev c c'. drawFrame cm c0 0 = Inr c
           \<and> stepLoop cm start (totalMs cm) nows c = (Finished, ev, c')
           \<and> fst (snd (startRecording cm h c0 start nows)) =
               [Frame 0, RecorderStart m] @ ev @ [RecorderStop]"
  using assms
  by (auto simp: startRecording_def Let_def
      split: sum.splits prod.splits if_splits loop_status.splits)

lemma startRecording_trace:
  assumes "rendersAll cm" and "\<forall>now\<in>set nows. start \<le> now"
    and "hasMediaRecorder h" and "recorderAccepts h (selectMimeType h)"
  shows "(fst (startRecording cm h c0 start nows), fst (snd (startRecording cm h c0 start nows))) =
         (case loopTrace start (totalMs cm) nows of
            (Finished, ts) \<Rightarrow>
              (Resolved (selectMimeType h),
               [Frame 0, RecorderStart (selectMimeType h)] @ map Frame ts @ [RecorderStop])
          | (st, ts) \<Rightarrow>
              (Pending, [Frame 0, RecorderStart (selectMimeType h)] @ map Frame ts))"
proof -
  from drawFrame_ok[OF assms(1), of 0 c0]
  obtain c where c: "drawFrame cm c0 0 = Inr c" by auto
  obtain st ev c' where r: "stepLoop cm start (totalMs cm) nows c = (st, ev, c')"
    by (cases "stepLoop cm start (totalMs cm) nows c") auto
  from stepLoop_trace[OF assms(1,2) rendersAll_total[OF assms(1)], of c] r
  have t: "loopTrace start (totalMs cm) nows = (st, frameTimes ev) \<and> ev = map Frame (frameTimes ev)"
    by (auto simp: frameTimes_frames split: prod.splits)
  then have t1: "loopTrace start (totalMs cm) nows = (st, frameTimes ev)"
    and t2: "map Frame (frameTimes ev) = ev" by simp_all
  show ?thesis using c r assms(3,4)
    by (cases st) (simp_all add: startRecording_def Let_def t1 t2)
qed

lemma demo_run:
  "loopTrace 0 (totalMs (demo 1 sty)) [7299, 7316] = (Finished, [7299, 7299])"
  "loopTrace 0 (totalMs (demo 1 sty)) [16, 7316] = (Finished, [16, 7299])"
  by (simp_all add: demo_fields total_1 Let_def)

lemma vp8Host_fields:
  "hasMediaRecorder vp8Host"
  "recorderAccepts vp8Host (selectMimeType vp8Host)"
  by (simp_all add: select_vp8) (simp_all add: vp8Host_def)

lemma demo_capture:
  "fst (startRecording (demo 1 sty) vp8Host c 0 [16, 7316])
     = Resolved ''video/webm;codecs=vp8,opus''"
proof -
  have "\<forall>now\<in>set [16, 7316 :: real]. 0 \<le> now" by simp
  from startRecording_trace[OF demo_rendersAll this vp8Host_fields, of 1 sty c,
      unfolded demo_run select_vp8]
  show ?thesis by simp
qed







text \<open>
  C9. \<^verbatim>\<open>selectMimeType\<close> returns one of exactly three fixed strings, each of which
  begins with \<^verbatim>\<open>video/webm\<close>; the blob of every capture that resolves has that type,
  whatever the host supports, and the name of the download ends in \<^verbatim>\<open>.webm\<close>.
\<close>

theorem mime_is_webm:
  "selectMimeType h \<in>
     {''video/webm;codecs=vp9,opus'', ''video/webm;codecs=vp8,opus'', ''video/webm''}
   \<and> prefix ''video/webm'' (selectMimeType h)
   \<and> list_all (prefix ''video/webm'') cand
   \<and> (fst (startRecording cm h c start nows) = Resolved m \<longrightarrow>
        m = selectMimeType h \<and> prefix ''video/webm'' m)
   \<and> suffix ''.webm'' (downloadName stamp)"
proof (intro conjI impI)
  show "selectMimeType h \<in>
     {''video/webm;codecs=vp9,opus'', ''video/webm;codecs=vp8,opus'', ''video/webm''}"
    using select_in_cand[of h] by (simp add: cand_def)
  show "prefix ''video/webm'' (selectMimeType h)" by (rule select_prefix)
  show "list_all (prefix ''video/webm'') cand" by (simp add: cand_def)
  show "m = selectMimeType h" if "fst (startRecording cm h c start nows) = Resolved m"
    using startRecording_resolved[OF that] by simp
  then show "prefix ''video/webm'' m" if "fst (startRecording cm h c start nows) = Resolved m"
    using that select_prefix by simp
  show "suffix ''.webm'' (downloadName stamp)"
    by (simp add: downloadName_def suffix_def)
qed

theorem mime_is_webm_witness:
  "fst (startRecording (demo 1 Modern) vp8Host (freshCtx 1280 720) 0 [16, 7316])
     = Resolved ''video/webm;codecs=vp8,opus''
   \<and> ''video/webm;codecs=vp8,opus'' = selectMimeType vp8Host
   \<and> prefix ''video/webm'' ''video/webm;codecs=vp8,opus''"
proof -
  have h: "fst (startRecording (demo 1 Modern) vp8Host (freshCtx 1280 720) 0 [16, 7316])
             = Resolved ''video/webm;codecs=vp8,opus''"
    by (rule demo_capture)
  from mime_is_webm[of vp8Host "demo 1 Modern" "freshCtx 1280 720" 0 "[16, 7316]"
      "''video/webm;codecs=vp8,opus''"] h
  show ?thesis by blast
qed

text \<open>
  C7, as amended. The events of the loop are frames at the clamped times of the first
  callbacks, in their order. With clock readings that do not decrease, the times of the
  frames do not decrease; with strictly increasing readings they increase strictly
  until \<open>duration - 1\<close> is reached, which can then repeat (a callback whose elapsed time
  lies in \<open>[duration - 1, duration)\<close> and the last one are both clamped to it). When the
  loop finishes, it does so at the first callback whose elapsed time reaches the
  duration, and its last frame is at \<open>duration - 1\<close>; in a capture that resolves, that
  frame is the event just before the only stop of the recorder. The capture resolves
  when the renderer has a scene for every time, no reading precedes the start, some
  reading reaches the duration, and the host's recorder accepts the selected type.
\<close>

theorem capture_frames_ordered:
  "fst (snd (stepLoop cm start d nows c)) =
     map (\<lambda>now. Frame (clampedAt start d now))
       (take (length (fst (snd (stepLoop cm start d nows c)))) nows)
   \<and> (sorted nows \<longrightarrow> sorted (frameTimes (fst (snd (stepLoop cm start d nows c)))))
   \<and> (sorted_wrt (<) nows \<longrightarrow>
        sorted_wrt (\<lambda>a b. a < b \<or> (a = d - 1 \<and> b = d - 1))
          (frameTimes (fst (snd (stepLoop cm start d nows c)))))
   \<and> (fst (stepLoop cm start d nows c) = Finished \<longrightarrow>
        fst (snd (stepLoop cm start d nows c)) \<noteq> []
        \<and> last (fst (snd (stepLoop cm start d nows c))) = Frame (d - 1)
        \<and> d \<le> nows ! (length (fst (snd (stepLoop cm start d nows c))) - 1) - start
        \<and> (\<forall>i<length (fst (snd (stepLoop cm start d nows c))) - 1. nows ! i - start < d))
   \<and> (fst (startRecording cm h c start nows) = Resolved m \<longrightarrow>
        last (fst (snd (startRecording cm h c start nows))) = RecorderStop
        \<and> last (butlast (fst (snd (startRecording cm h c start nows)))) = Frame (totalMs cm - 1)
        \<and> RecorderStop \<notin> set (butlast (fst (snd (startRecording cm h c start nows)))))
   \<and> (rendersAll cm \<and> (\<forall>now\<in>set nows. start \<le> now) \<and> (\<exists>now\<in>set nows. totalMs cm \<le> now - start)
        \<and> hasMediaRecorder h \<and> recorderAccepts h (selectMimeType h) \<longrightarrow>
        fst (startRecording cm h c start nows) = Resolved (selectMimeType h))"
proof (intro conjI impI)
  obtain st ev c' where r: "stepLoop cm start d nows c = (st, ev, c')"
    by (cases "stepLoop cm start d nows c") auto
  show "fst (snd (stepLoop cm start d nows c)) =
     map (\<lambda>now. Frame (clampedAt start d now))
       (take (length (fst (snd (stepLoop cm start d nows c)))) nows)"
    using stepLoop_frames[OF r] r by simp
  show "sorted (frameTimes (fst (snd (stepLoop cm start d nows c))))" if "sorted nows"
  proof -
    from that have "sorted (take (length ev) nows)" by (rule sorted_wrt_take)
    then show ?thesis using clamp_mono r stepLoop_times[of cm start d nows c] by simp
  qed
  show "sorted_wrt (\<lambda>a b. a < b \<or> (a = d - 1 \<and> b = d - 1))
          (frameTimes (fst (snd (stepLoop cm start d nows c))))"
    if "sorted_wrt (<) nows"
  proof -
    from that have "sorted_wrt (<) (take (length ev) nows)" by (rule sorted_wrt_take)
    then show ?thesis using clamp_strict r stepLoop_times[of cm start d nows c] by simp
  qed
  assume f: "fst (stepLoop cm start d nows c) = Finished"
  with r have "stepLoop cm start d nows c = (Finished, ev, c')" by simp
  from stepLoop_finished[OF this] r
  show "fst (snd (stepLoop cm start d nows c)) \<noteq> []"
    "last (fst (snd (stepLoop cm start d nows c))) = Frame (d - 1)"
    "d \<le> nows ! (length (fst (snd (stepLoop cm start d nows c))) - 1) - start"
    "\<forall>i<length (fst (snd (stepLoop cm start d nows c))) - 1. nows ! i - start < d"
    by simp_all
next
  assume res: "fst (startRecording cm h c start nows) = Resolved m"
  from startRecording_events[OF res] obtain ev c1 c' where
    l: "stepLoop cm start (totalMs cm) nows c1 = (Finished, ev, c')" and
    e: "fst (snd (startRecording cm h c start nows)) = [Frame 0, RecorderStart m] @ ev @ [RecorderStop]"
    by blast
  from stepLoop_finished[OF l] have ne: "ev \<noteq> []" and la: "last ev = Frame (totalMs cm - 1)"
    by simp_all
  from stepLoop_frames[OF l] have "RecorderStop \<notin> set ev"
    by (metis (no_types, lifting) event.distinct(3) imageE list.set_map)
  then have bl: "RecorderStop \<notin> set ([Frame 0, RecorderStart m] @ ev)" by simp
  have b: "butlast (fst (snd (startRecording cm h c start nows))) = [Frame 0, RecorderStart m] @ ev"
    unfolding e by (simp add: butlast_append)
  show "last (fst (snd (startRecording cm h c start nows))) = RecorderStop"
    unfolding e by simp
  show "last (butlast (fst (snd (startRecording cm h c start nows)))) = Frame (totalMs cm - 1)"
    unfolding b using ne la by simp
  show "RecorderStop \<notin> set (butlast (fst (snd (startRecording cm h c start nows))))"
    unfolding b using bl .
next
  assume h: "rendersAll cm \<and> (\<forall>now\<in>set nows. start \<le> now)
     \<and> (\<exists>now\<in>set nows. totalMs cm \<le> now - start)
     \<and> hasMediaRecorder h \<and> recorderAccepts h (selectMimeType h)"
  from h drawFrame_ok[of cm 0 c] obtain c1 where c1: "drawFrame cm c 0 = Inr c1" by auto
  from h have "fst (stepLoop cm start (totalMs cm) nows c1) = Finished"
    using stepLoop_live[of cm nows start "totalMs cm" c1] rendersAll_total[of cm] by blast
  then show "fst (startRecording cm h c start nows) = Resolved (selectMimeType h)"
    using c1 h by (auto simp: startRecording_def Let_def split: prod.splits)
qed

theorem capture_frames_ordered_witness:
  "fst (startRecording (demo 1 Cinematic) vp8Host (freshCtx 1280 720) 0 [16, 7316])
     = Resolved (selectMimeType vp8Host)
   \<and> last (butlast (fst (snd (startRecording (demo 1 Cinematic) vp8Host (freshCtx 1280 720) 0
        [16, 7316])))) = Frame 7299
   \<and> sorted (frameTimes (fst (snd (stepLoop (demo 1 Cinematic) 0 7300 [16, 7316]
        (freshCtx 1280 720)))))"
proof -
  have h1: "rendersAll (demo 1 Cinematic) \<and> (\<forall>now\<in>set [16, 7316 :: real]. 0 \<le> now)
     \<and> (\<exists>now\<in>set [16, 7316 :: real]. totalMs (demo 1 Cinematic) \<le> now - 0)
     \<and> hasMediaRecorder vp8Host \<and> recorderAccepts vp8Host (selectMimeType vp8Host)"
    by (simp add: demo_rendersAll demo_fields total_1 vp8Host_fields)
  have h2: "sorted [16, 7316 :: real]" by simp
  from capture_frames_ordered[of "demo 1 Cinematic" 0 _ "[16, 7316]" "freshCtx 1280 720" vp8Host] h1
  have a: "fst (startRecording (demo 1 Cinematic) vp8Host (freshCtx 1280 720) 0 [16, 7316])
     = Resolved (selectMimeType vp8Host)"
    by blast
  from capture_frames_ordered[of "demo 1 Cinematic" 0 _ "[16, 7316]" "freshCtx 1280 720" vp8Host
      "selectMimeType vp8Host"] a
  have b: "last (butlast (fst (snd (startRecording (demo 1 Cinematic) vp8Host (freshCtx 1280 720) 0
        [16, 7316])))) = Frame (totalMs (demo 1 Cinematic) - 1)"
    by blast
  from capture_frames_ordered[of "demo 1 Cinematic" 0 7300 "[16, 7316]" "freshCtx 1280 720"] h2
  have c: "sorted (frameTimes (fst (snd (stepLoop (demo 1 Cinematic) 0 7300 [16, 7316]
        (freshCtx 1280 720)))))"
    by blast
  have t: "totalMs (demo 1 Cinematic) - 1 = 7299" by (simp add: demo_fields total_1)
  from a b c show ?thesis unfolding t by blast
qed

theorem last_frame_repeated:
  "sorted_wrt (<) [7299, 7316 :: real]
   \<and> fst (startRecording (demo 1 Cinematic) vp8Host (freshCtx 1280 720) 0 [7299, 7316])
       = Resolved ''video/webm;codecs=vp8,opus''
   \<and> fst (snd (startRecording (demo 1 Cinematic) vp8Host (freshCtx 1280 720) 0 [7299, 7316]))
       = [Frame 0, RecorderStart ''video/webm;codecs=vp8,opus'', Frame 7299, Frame 7299,
          RecorderStop]"
proof -
  have "\<forall>now\<in>set [7299, 7316 :: real]. 0 \<le> now" by simp
  from startRecording_trace[OF demo_rendersAll this vp8Host_fields, of 1 Cinematic
      "freshCtx 1280 720", unfolded demo_run select_vp8]
  show ?thesis by simp
qed

section \<open>Calls made by the dropzone\<close>

lemma onInputChange_cases:
  "onInputChange multiple fl =
     (case fl of
        None \<Rightarrow> []
      | Some [] \<Rightarrow> []
      | Some (f # fs) \<Rightarrow> [if multiple then f # fs else [f]])"
  by (simp add: onInputChange_def Let_def split: option.splits list.splits)

lemma onDrop_calls: "snd (onDrop multiple fl) = onInputChange multiple fl"
  by (simp add: onInputChange_def onDrop_def Let_def)

text \<open>
  C10. On a change of the file input and on a drop, \<^verbatim>\<open>onFiles\<close> is called at most
  once, never with an empty list, and exactly when the event carries at least one file;
  when \<^verbatim>\<open>multiple\<close> is false its argument is the one-element list of the first file,
  and the whole list otherwise.
\<close>

theorem dropzone_nonempty:
  "list_all (\<lambda>fs. fs \<noteq> []) (onInputChange multiple fl)
   \<and> list_all (\<lambda>fs. fs \<noteq> []) (snd (onDrop multiple fl))
   \<and> length (onInputChange multiple fl) \<le> 1
   \<and> snd (onDrop multiple fl) = onInputChange multiple fl
   \<and> (onInputChange multiple fl \<noteq> [] \<longleftrightarrow> (\<exists>f fs. fl = Some (f # fs)))
   \<and> (fl = Some (f # rest) \<and> \<not> multiple \<longrightarrow>
        onInputChange multiple fl = [[f]] \<and> snd (onDrop multiple fl) = [[f]])
   \<and> (fl = Some (f # rest) \<and> multiple \<longrightarrow>
        onInputChange multiple fl = [f # rest] \<and> snd (onDrop multiple fl) = [f # rest])
   \<and> (fl = None \<or> fl = Some [] \<longrightarrow>
        onInputChange multiple fl = [] \<and> snd (onDrop multiple fl) = [])"
  by (auto simp: onDrop_calls onInputChange_cases split: option.splits list.splits)

theorem dropzone_nonempty_witness:
  "onInputChange False (Some [''a.png'', ''b.png'']) = [[''a.png'']]
   \<and> snd (onDrop False (Some [''a.png'', ''b.png''])) = [[''a.png'']]
   \<and> onInputChange True (Some [''a.png'', ''b.png'']) = [[''a.png'', ''b.png'']]
   \<and> onInputChange True (None :: string list option) = []"
proof -
  have h1: "Some [''a.png'', ''b.png''] = Some (''a.png'' # [''b.png'']) \<and> \<not> False" by simp
  have h2: "Some [''a.png'', ''b.png''] = Some (''a.png'' # [''b.png'']) \<and> True" by simp
  have h3: "(None :: string list option) = None \<or> (None :: string list option) = Some []"
    by simp
  from dropzone_nonempty[of False "Some [''a.png'', ''b.png'']" "''a.png''" "[''b.png'']"] h1
  have a: "onInputChange False (Some [''a.png'', ''b.png'']) = [[''a.png'']]
           \<and> snd (onDrop False (Some [''a.png'', ''b.png''])) = [[''a.png'']]"
    by blast
  from dropzone_nonempty[of True "Some [''a.png'', ''b.png'']" "''a.png''" "[''b.png'']"] h2
  have b: "onInputChange True (Some [''a.png'', ''b.png'']) = [[''a.png'', ''b.png'']]"
    by blast
  from dropzone_nonempty[of True "None :: string list option"] h3
  have c: "onInputChange True (None :: string list option) = []" by blast
  from a b c show ?thesis by blast
qed


end
